theory Spec2Isabelle
  imports Complex_Main
begin

section \<open>Data model\<close>

text \<open>
  JavaScript numbers are modelled as reals, without rounding and without overflow. The
  values that are not finite numbers (NaN, the infinities, and values of any other
  type) appear in the raw coordinate entries that the parser validates and at the
  single division by zero of the centerline sampler. The analysis and the scores are
  given a second time, in double arithmetic with overflow, in the section that follows
  the text placer.
\<close>

datatype jsval =
    JNum real      \<comment> \<open>a finite number\<close>
  | JNonFinite     \<comment> \<open>NaN, Infinity, -Infinity\<close>
  | JOther         \<comment> \<open>a value whose typeof is not 'number'\<close>

datatype entry =
    Arr "jsval list"   \<comment> \<open>an array\<close>
  | NotArr             \<comment> \<open>anything else\<close>

datatype input =
    WktString string
  | CoordArray "entry list"
  | OtherInput

text \<open>
  The errors of the source are \<open>Error\<close> objects with a message; each constructor stands
  for one message. \<open>TypeError\<close> is the exception the runtime raises when a property of
  \<open>undefined\<close> is read.
\<close>

datatype error =
    InvalidInput             \<comment> \<open>'Invalid input: expected coordinate array or WKT string'\<close>
  | WKTParsingFailed error   \<comment> \<open>'WKT parsing failed: ' followed by the inner message\<close>
  | TooFewPoints             \<comment> \<open>'River path must have at least 3 coordinate points'\<close>
  | CoordNotArray nat        \<comment> \<open>'Coordinate at index i must be an array'\<close>
  | CoordBadLength nat       \<comment> \<open>'Coordinate at index i must have 2 or 3 elements ...'\<close>
  | CoordNotNumeric          \<comment> \<open>'Coordinates must be numeric [x, y] or [x, y, width] arrays'\<close>
  | InvalidPolygon           \<comment> \<open>'Invalid polygon coordinates'\<close>
  | InvalidPathNoPoints      \<comment> \<open>'Invalid path: path must have points'\<close>
  | InvalidStartIdx int nat  \<comment> \<open>'Invalid startIdx: s (path has n points)'\<close>
  | TypeError                \<comment> \<open>a property of undefined was read\<close>

record point =
  px :: real
  py :: real

record bounds =
  minX :: real
  maxX :: real
  minY :: real
  maxY :: real

text \<open>
  A river path. \<open>widths\<close> is \<open>None\<close> for the source's \<open>null\<close>; inside the array an
  entry \<open>None\<close> is a \<open>null\<close> entry (no width recorded for that slot). The source's field
  \<open>length\<close> is \<open>path_length\<close> here.
\<close>

record RiverPath =
  points :: "point list"
  widths :: "real option list option"
  path_length :: real
  bounds :: bounds

datatype reason = SharpCurve | NarrowSection | EdgeSection

record segment =
  startIdx :: int
  endIdx :: int
  seg_length :: real
  reason :: "reason option"

section \<open>RiverPathParser\<close>

fun isFiniteNumber :: "jsval \<Rightarrow> bool" where
  "isFiniteNumber (JNum r) = True"
| "isFiniteNumber JNonFinite = False"
| "isFiniteNumber JOther = False"

fun validateCoord :: "nat \<Rightarrow> entry \<Rightarrow> error option" where
  "validateCoord i NotArr = Some (CoordNotArray i)"
| "validateCoord i (Arr coord) =
     (if length coord < 2 \<or> length coord > 3 then Some (CoordBadLength i)
      else if list_ex (\<lambda>v. \<not> isFiniteNumber v) coord then Some CoordNotNumeric
      else None)"

fun validateFrom :: "nat \<Rightarrow> entry list \<Rightarrow> error option" where
  "validateFrom i [] = None"
| "validateFrom i (coord # rest) =
     (case validateCoord i coord of
        Some e \<Rightarrow> Some e
      | None \<Rightarrow> validateFrom (Suc i) rest)"

text \<open>\<open>validate\<close> returns \<open>None\<close> for \<open>{valid: true}\<close> and the error otherwise.\<close>

definition validate :: "entry list \<Rightarrow> error option" where
  "validate coordinates =
     (if length coordinates < 3 then Some TooFewPoints
      else validateFrom 0 coordinates)"

text \<open>
  Reading the fields of a validated entry. The clauses for values that are not finite
  numbers are never reached after \<open>validate\<close> has passed.
\<close>

fun numOf :: "jsval \<Rightarrow> real" where
  "numOf (JNum r) = r"
| "numOf JNonFinite = 0"
| "numOf JOther = 0"

fun entryFields :: "entry \<Rightarrow> jsval list" where
  "entryFields (Arr coord) = coord"
| "entryFields NotArr = []"

text \<open>
  The extraction loop of \<open>parse\<close>: the state is \<open>(points, widths, hasWidthData)\<close>.
  A width slot is pushed for an entry of three fields, and a \<open>null\<close> slot for an entry
  of two fields once \<open>hasWidthData\<close> is set; an entry of two fields met before that
  pushes nothing.
\<close>

fun extractLoop ::
  "entry list \<Rightarrow> point list \<Rightarrow> real option list \<Rightarrow> bool
     \<Rightarrow> point list \<times> real option list \<times> bool" where
  "extractLoop [] ps ws hasWidthData = (ps, ws, hasWidthData)"
| "extractLoop (coord # rest) ps ws hasWidthData =
     (let c = entryFields coord;
          ps' = ps @ [\<lparr>px = numOf (c ! 0), py = numOf (c ! 1)\<rparr>]
      in if length c = 3 then extractLoop rest ps' (ws @ [Some (numOf (c ! 2))]) True
         else if hasWidthData then extractLoop rest ps' (ws @ [None]) hasWidthData
         else extractLoop rest ps' ws hasWidthData)"

definition totalLength :: "point list \<Rightarrow> real" where
  "totalLength ps =
     foldl (\<lambda>acc i.
        let dx = px (ps ! i) - px (ps ! (i - 1));
            dy = py (ps ! i) - py (ps ! (i - 1))
        in acc + sqrt (dx * dx + dy * dy)) 0 [1..<length ps]"

definition boundingBox :: "point list \<Rightarrow> bounds" where
  "boundingBox ps =
     foldl (\<lambda>b i.
        \<lparr>minX = min (minX b) (px (ps ! i)), maxX = max (maxX b) (px (ps ! i)),
         minY = min (minY b) (py (ps ! i)), maxY = max (maxY b) (py (ps ! i))\<rparr>)
       \<lparr>minX = px (ps ! 0), maxX = px (ps ! 0), minY = py (ps ! 0), maxY = py (ps ! 0)\<rparr>
       [1..<length ps]"

text \<open>The part of \<open>parse\<close> that follows the choice of the coordinate list.\<close>

definition buildPath :: "entry list \<Rightarrow> error + RiverPath" where
  "buildPath coordinates =
     (case validate coordinates of
        Some e \<Rightarrow> Inl e
      | None \<Rightarrow>
          (case extractLoop coordinates [] [] False of
             (ps, ws, hasWidthData) \<Rightarrow>
               Inr \<lparr>points = ps,
                    widths = (if hasWidthData then Some ws else None),
                    path_length = totalLength ps,
                    bounds = boundingBox ps\<rparr>))"

section \<open>WKTParser: centerline extraction\<close>

text \<open>
  The sample position along the dominant axis. With a single sample the source divides
  \<open>0\<close> by \<open>0\<close>; the position is then NaN, written \<open>None\<close>.
\<close>

definition samplePosition :: "real \<Rightarrow> real \<Rightarrow> nat \<Rightarrow> nat \<Rightarrow> real option" where
  "samplePosition lo extent i numSamples =
     (if numSamples = 1 then None
      else Some (lo + (extent * real i) / (real numSamples - 1)))"

datatype direction = Vertical | Horizontal

fun edgeIntersection ::
  "direction \<Rightarrow> real \<Rightarrow> real \<times> real \<Rightarrow> real \<times> real \<Rightarrow> point option" where
  "edgeIntersection Vertical v p1 p2 =
     (if (fst p1 \<le> v \<and> fst p2 \<ge> v) \<or> (fst p1 \<ge> v \<and> fst p2 \<le> v) then
        (if fst p2 \<noteq> fst p1 then
           (let t = (v - fst p1) / (fst p2 - fst p1)
            in Some \<lparr>px = v, py = snd p1 + t * (snd p2 - snd p1)\<rparr>)
         else None)
      else None)"
| "edgeIntersection Horizontal v p1 p2 =
     (if (snd p1 \<le> v \<and> snd p2 \<ge> v) \<or> (snd p1 \<ge> v \<and> snd p2 \<le> v) then
        (if snd p2 \<noteq> snd p1 then
           (let t = (v - snd p1) / (snd p2 - snd p1)
            in Some \<lparr>px = fst p1 + t * (fst p2 - fst p1), py = v\<rparr>)
         else None)
      else None)"

text \<open>Every comparison with NaN is false, so a NaN position meets no edge.\<close>

definition findIntersections ::
  "(real \<times> real) list \<Rightarrow> real option \<Rightarrow> direction \<Rightarrow> point list" where
  "findIntersections polygonCoords val d =
     (case val of
        None \<Rightarrow> []
      | Some v \<Rightarrow>
          List.map_filter
            (\<lambda>i. edgeIntersection d v (polygonCoords ! i)
                    (polygonCoords ! ((i + 1) mod length polygonCoords)))
            [0..<length polygonCoords])"

definition smoothCenterline ::
  "(real \<times> real \<times> real) list \<Rightarrow> (real \<times> real \<times> real) list" where
  "smoothCenterline centerline =
     (if length centerline < 3 then centerline
      else map (\<lambda>i.
             let start = i - 1;
                 stop = min (length centerline) (i + 2);
                 window = map (\<lambda>j. centerline ! j) [start..<stop];
                 count = real (length window)
             in (sum_list (map fst window) / count,
                 sum_list (map (fst \<circ> snd) window) / count,
                 sum_list (map (snd \<circ> snd) window) / count))
           [0..<length centerline])"

text \<open>
  The frame that \<open>extractCenterline\<close> computes before sampling: whether the polygon is
  wider than high, the lower bound and the extent of its dominant axis, and the number
  of samples.
\<close>

record Frame =
  isHorizontal :: bool
  lower :: real
  extent :: real
  numSamples :: nat

definition polygonFrame :: "(real \<times> real) list \<Rightarrow> Frame" where
  "polygonFrame polygonCoords =
     (let xs = map fst polygonCoords; ys = map snd polygonCoords;
          loX = foldl min (hd xs) (tl xs); hiX = foldl max (hd xs) (tl xs);
          loY = foldl min (hd ys) (tl ys); hiY = foldl max (hd ys) (tl ys);
          width = hiX - loX; height = hiY - loY
      in \<lparr>isHorizontal = (width > height),
          lower = (if width > height then loX else loY),
          extent = (if width > height then width else height),
          numSamples = min 100 (length polygonCoords div 2)\<rparr>)"

text \<open>The intersections found at sample \<open>i\<close>.\<close>

definition intersectionsAt :: "(real \<times> real) list \<Rightarrow> nat \<Rightarrow> point list" where
  "intersectionsAt polygonCoords i =
     (let fr = polygonFrame polygonCoords
      in findIntersections polygonCoords
           (samplePosition (lower fr) (extent fr) i (numSamples fr))
           (if isHorizontal fr then Vertical else Horizontal))"

text \<open>
  One cross-section: the centre and the spread of the extreme intersections. The sample
  position is a number whenever two intersections were found.
\<close>

definition crossSection :: "(real \<times> real) list \<Rightarrow> nat \<Rightarrow> (real \<times> real \<times> real) option" where
  "crossSection polygonCoords i =
     (let fr = polygonFrame polygonCoords;
          intersections = intersectionsAt polygonCoords i
      in if length intersections \<ge> 2 then
           (let vals = sort (map (if isHorizontal fr then py else px) intersections);
                center = (hd vals + last vals) / 2;
                riverWidth = last vals - hd vals;
                v = the (samplePosition (lower fr) (extent fr) i (numSamples fr))
            in if isHorizontal fr then Some (v, center, riverWidth)
               else Some (center, v, riverWidth))
         else None)"

definition extractCenterline ::
  "(real \<times> real) list \<Rightarrow> error + (real \<times> real \<times> real) list" where
  "extractCenterline polygonCoords =
     (if length polygonCoords < 3 then Inl InvalidPolygon
      else
        (let centerline =
               List.map_filter (crossSection polygonCoords)
                 [0..<numSamples (polygonFrame polygonCoords)]
         in Inr (smoothCenterline centerline)))"

text \<open>
  \<open>parse\<close>. Scanning the text of a WKT string into a vertex ring is not part of the
  geometry core; it enters as the parameter \<open>parsePolygon\<close>, whose errors \<open>parse\<close>
  wraps exactly as it wraps those of \<open>extractCenterline\<close>.
\<close>

definition parse ::
  "(string \<Rightarrow> error + (real \<times> real) list) \<Rightarrow> input \<Rightarrow> error + RiverPath" where
  "parse parsePolygon data =
     (case data of
        WktString s \<Rightarrow>
          (case parsePolygon s of
             Inl e \<Rightarrow> Inl (WKTParsingFailed e)
           | Inr polygonCoords \<Rightarrow>
               (case extractCenterline polygonCoords of
                  Inl e \<Rightarrow> Inl (WKTParsingFailed e)
                | Inr centerline \<Rightarrow>
                    buildPath (map (\<lambda>(x, y, w). Arr [JNum x, JNum y, JNum w]) centerline)))
      | CoordArray coordinates \<Rightarrow> buildPath coordinates
      | OtherInput \<Rightarrow> Inl InvalidInput)"

section \<open>GeometryAnalyzer\<close>

definition distance :: "point \<Rightarrow> point \<Rightarrow> real" where
  "distance p1 p2 = sqrt ((px p2 - px p1)\<^sup>2 + (py p2 - py p1)\<^sup>2)"

text \<open>Reading an array at an index: \<open>None\<close> is \<open>undefined\<close>.\<close>

definition elemAt :: "'a list \<Rightarrow> int \<Rightarrow> 'a option" where
  "elemAt xs i = (if 0 \<le> i \<and> i < int (length xs) then Some (xs ! nat i) else None)"

function calcSegLoop :: "point list \<Rightarrow> int \<Rightarrow> int \<Rightarrow> real \<Rightarrow> error + real" where
  "calcSegLoop ps i e len =
     (if i < e then
        (case (elemAt ps i, elemAt ps (i + 1)) of
           (Some p1, Some p2) \<Rightarrow> calcSegLoop ps (i + 1) e (len + distance p1 p2)
         | _ \<Rightarrow> Inl TypeError)
      else Inr len)"
  by pat_completeness auto
termination
  by (relation "measure (\<lambda>(ps, i, e, len). nat (e - i))") auto

declare calcSegLoop.simps [simp del]

definition calculateSegmentLength :: "RiverPath \<Rightarrow> int \<Rightarrow> int \<Rightarrow> error + real" where
  "calculateSegmentLength path s e = calcSegLoop (points path) s e 0"

definition rawCurvature :: "point list \<Rightarrow> nat \<Rightarrow> real" where
  "rawCurvature ps i =
     (let p0 = ps ! (i - 1); p1 = ps ! i; p2 = ps ! (i + 1);
          v1x = px p1 - px p0; v1y = py p1 - py p0;
          v2x = px p2 - px p1; v2y = py p2 - py p1;
          mag1 = sqrt (v1x * v1x + v1y * v1y);
          mag2 = sqrt (v2x * v2x + v2y * v2y)
      in if mag1 = 0 \<or> mag2 = 0 then 0
         else
           (let dotProduct = v1x * v2x + v1y * v2y;
                cosAngle = dotProduct / (mag1 * mag2);
                clampedCos = max (- 1) (min 1 cosAngle);
                angleRad = arccos clampedCos;
                angleDeg = angleRad * (180 / pi);
                avgDistance = (mag1 + mag2) / 2
            in if avgDistance > 0 then angleDeg / avgDistance else 0))"

definition rawCurvatures :: "point list \<Rightarrow> real list" where
  "rawCurvatures ps =
     map (\<lambda>i. if 1 \<le> i \<and> i + 1 < length ps then rawCurvature ps i else 0) [0..<length ps]"

definition calculateCurvature :: "RiverPath \<Rightarrow> real list" where
  "calculateCurvature path =
     (let n = length (points path)
      in if n < 3 then []
         else
           (let raw = rawCurvatures (points path)
            in map (\<lambda>i.
                 if i = 0 \<or> i = n - 1 then 0
                 else if i = 1 then (raw ! i + raw ! (i + 1)) / 2
                 else if i = n - 2 then (raw ! (i - 1) + raw ! i) / 2
                 else (raw ! (i - 1) + raw ! i + raw ! (i + 1)) / 3)
               [0..<n]))"

text \<open>
  In a comparison \<open>w < minWidth\<close> the runtime converts a \<open>null\<close> entry to the number 0.
\<close>

fun toNumber :: "real option \<Rightarrow> real" where
  "toNumber None = 0"
| "toNumber (Some w) = w"

text \<open>
  The run scan of \<open>findSharpCurves\<close> and \<open>findNarrowSections\<close>: the two loops are the
  same but for the test applied at each index (here the list of its outcomes) and the
  reason tag. The state is \<open>(inRun, startIdx, segments)\<close>; \<open>startIdx\<close> starts at \<open>-1\<close>.
\<close>

fun scanRuns ::
  "RiverPath \<Rightarrow> reason \<Rightarrow> bool list \<Rightarrow> nat \<Rightarrow> bool \<Rightarrow> int \<Rightarrow> segment list
     \<Rightarrow> error + (bool \<times> int \<times> segment list)" where
  "scanRuns path r [] i inRun s segs = Inr (inRun, s, segs)"
| "scanRuns path r (hit # rest) i inRun s segs =
     (if hit then
        (if \<not> inRun then scanRuns path r rest (Suc i) True (int i) segs
         else scanRuns path r rest (Suc i) inRun s segs)
      else
        (if inRun then
           (case calculateSegmentLength path s (int i - 1) of
              Inl err \<Rightarrow> Inl err
            | Inr len \<Rightarrow>
                scanRuns path r rest (Suc i) False s
                  (segs @ [\<lparr>startIdx = s, endIdx = int i - 1, seg_length = len,
                            reason = Some r\<rparr>]))
         else scanRuns path r rest (Suc i) inRun s segs))"

fun closeRun ::
  "RiverPath \<Rightarrow> reason \<Rightarrow> nat \<Rightarrow> bool \<times> int \<times> segment list \<Rightarrow> error + segment list" where
  "closeRun path r n (inRun, s, segs) =
     (if inRun then
        (case calculateSegmentLength path s (int n - 1) of
           Inl err \<Rightarrow> Inl err
         | Inr len \<Rightarrow>
             Inr (segs @ [\<lparr>startIdx = s, endIdx = int n - 1, seg_length = len,
                           reason = Some r\<rparr>]))
      else Inr segs)"

definition findRuns :: "RiverPath \<Rightarrow> reason \<Rightarrow> bool list \<Rightarrow> error + segment list" where
  "findRuns path r hits =
     (case scanRuns path r hits 0 False (- 1) [] of
        Inl err \<Rightarrow> Inl err
      | Inr st \<Rightarrow> closeRun path r (length hits) st)"

definition findSharpCurves :: "RiverPath \<Rightarrow> real \<Rightarrow> error + segment list" where
  "findSharpCurves path threshold =
     (let curvatures = calculateCurvature path
      in if length (points path) < 3 then Inr []
         else findRuns path SharpCurve (map (\<lambda>c. c > threshold) curvatures))"

definition findNarrowSections :: "RiverPath \<Rightarrow> real \<Rightarrow> error + segment list" where
  "findNarrowSections path minWidth =
     (case widths path of
        None \<Rightarrow> Inr []
      | Some ws \<Rightarrow>
          if length ws = 0 then Inr []
          else findRuns path NarrowSection (map (\<lambda>w. toNumber w < minWidth) ws))"

record EdgeSections =
  edgeStart :: segment    \<comment> \<open>the source's field \<open>start\<close>\<close>
  edgeEnd :: segment      \<comment> \<open>the source's field \<open>end\<close>\<close>

text \<open>The forward loop returns the new \<open>startEndIdx\<close>, or its initial 0 without a break.\<close>

function edgeStartLoop :: "point list \<Rightarrow> real \<Rightarrow> nat \<Rightarrow> real \<Rightarrow> nat" where
  "edgeStartLoop ps edgeThreshold i acc =
     (if i + 1 < length ps then
        (let acc' = acc + distance (ps ! i) (ps ! (i + 1))
         in if acc' \<ge> edgeThreshold then i + 1
            else edgeStartLoop ps edgeThreshold (i + 1) acc')
      else 0)"
  by pat_completeness auto
termination
  by (relation "measure (\<lambda>(ps, t, i, acc). length ps - i)") auto

declare edgeStartLoop.simps [simp del]

text \<open>The backward loop, at \<open>i = Suc k\<close>; it returns the initial value without a break.\<close>

fun edgeEndLoop :: "point list \<Rightarrow> real \<Rightarrow> nat \<Rightarrow> real \<Rightarrow> int \<Rightarrow> int" where
  "edgeEndLoop ps edgeThreshold 0 acc initial = initial"
| "edgeEndLoop ps edgeThreshold (Suc k) acc initial =
     (let acc' = acc + distance (ps ! Suc k) (ps ! k)
      in if acc' \<ge> edgeThreshold then int k
         else edgeEndLoop ps edgeThreshold k acc' initial)"

definition getEdgeSections :: "RiverPath \<Rightarrow> error + EdgeSections" where
  "getEdgeSections path =
     (let ps = points path;
          n = length ps;
          edgeThreshold = path_length path * 0.1;
          startEndIdx0 = edgeStartLoop ps edgeThreshold 0 0;
          startEndIdx = (if startEndIdx0 = 0 \<and> n > 1 then n - 1 else startEndIdx0);
          endStartIdx0 = edgeEndLoop ps edgeThreshold (n - 1) 0 (int n - 1);
          endStartIdx = (if endStartIdx0 = int n - 1 \<and> n > 1 then 0 else endStartIdx0)
      in case calculateSegmentLength path 0 (int startEndIdx) of
           Inl err \<Rightarrow> Inl err
         | Inr startSegmentLength \<Rightarrow>
             (case calculateSegmentLength path endStartIdx (int n - 1) of
                Inl err \<Rightarrow> Inl err
              | Inr endSegmentLength \<Rightarrow>
                  Inr \<lparr>edgeStart = \<lparr>startIdx = 0, endIdx = int startEndIdx,
                                      seg_length = startSegmentLength,
                                      reason = Some EdgeSection\<rparr>,
                       edgeEnd = \<lparr>startIdx = endStartIdx, endIdx = int n - 1,
                                    seg_length = endSegmentLength,
                                    reason = Some EdgeSection\<rparr>\<rparr>))"

record GeometryMetrics =
  curvatures :: "real list"
  sharpCurves :: "segment list"
  narrowSections :: "segment list"
  edgeSections :: EdgeSections
  avgCurvature :: real
  maxCurvature :: real

definition analyzeGeometry :: "RiverPath \<Rightarrow> error + GeometryMetrics" where
  "analyzeGeometry path =
     (let cs = calculateCurvature path
      in case findSharpCurves path 30 of
           Inl err \<Rightarrow> Inl err
         | Inr sharp \<Rightarrow>
             (case (case widths path of
                      None \<Rightarrow> Inr []
                    | Some ws \<Rightarrow>
                        if length ws > 0 then findNarrowSections path 10 else Inr []) of
                Inl err \<Rightarrow> Inl err
              | Inr narrow \<Rightarrow>
                  (case getEdgeSections path of
                     Inl err \<Rightarrow> Inl err
                   | Inr edges \<Rightarrow>
                       Inr \<lparr>curvatures = cs,
                            sharpCurves = sharp,
                            narrowSections = narrow,
                            edgeSections = edges,
                            avgCurvature =
                              (if length cs > 2 then
                                 (let interior = butlast (tl cs)
                                  in foldl (+) 0 interior / real (length interior))
                               else 0),
                            maxCurvature =
                              (if length cs > 0 then foldl max (hd cs) (tl cs) else 0)\<rparr>)))"

section \<open>PlacementScorer\<close>

text \<open>
  The measurement context is the canvas, when there is one; without it the source
  falls back to \<open>text.length * fontSize * 0.6\<close>.
\<close>

definition measureTextLength ::
  "(real \<Rightarrow> string \<Rightarrow> string \<Rightarrow> real) option \<Rightarrow> string \<Rightarrow> real \<Rightarrow> string \<Rightarrow> real" where
  "measureTextLength ctx text fontSize fontFamily =
     (case ctx of
        None \<Rightarrow> real (length text) * fontSize * 0.6
      | Some measureText \<Rightarrow> measureText fontSize fontFamily text)"

text \<open>\<open>Math.atan2\<close> on finite reals.\<close>

definition atan2 :: "real \<Rightarrow> real \<Rightarrow> real" where
  "atan2 y x =
     (if x > 0 then arctan (y / x)
      else if x < 0 then (if y \<ge> 0 then arctan (y / x) + pi else arctan (y / x) - pi)
      else if y > 0 then pi / 2
      else if y < 0 then - (pi / 2)
      else 0)"

record ComponentScores =
  curvature :: real
  width :: real
  position :: real
  straightness :: real

record Candidate =
  segment :: segment
  score :: real
  scores :: ComponentScores
  centerPoint :: "point option"

definition calculateCurvatureScore ::
  "RiverPath \<Rightarrow> nat \<Rightarrow> nat \<Rightarrow> GeometryMetrics \<Rightarrow> real" where
  "calculateCurvatureScore path s e metrics =
     (let cs = curvatures metrics;
          (sm, cnt) =
            foldl (\<lambda>(sm, cnt) i. if i < length cs then (sm + cs ! i, cnt + 1) else (sm, cnt))
              (0, 0 :: nat) [s..<Suc e];
          avgCurv = (if cnt > 0 then sm / real cnt else 0)
      in max 0 (100 - avgCurv * 3))"

definition calculateWidthScore :: "RiverPath \<Rightarrow> nat \<Rightarrow> nat \<Rightarrow> real" where
  "calculateWidthScore path s e =
     (case widths path of
        None \<Rightarrow> 50
      | Some ws \<Rightarrow>
          if length ws = 0 then 50
          else
            (let (sm, cnt) =
                   foldl (\<lambda>(sm, cnt) i.
                            if i < length ws \<and> ws ! i \<noteq> None then (sm + the (ws ! i), cnt + 1)
                            else (sm, cnt))
                     (0, 0 :: nat) [s..<Suc e];
                 avgWidth = (if cnt > 0 then sm / real cnt else 0);
                 idealWidth = 20
             in min 100 ((avgWidth / idealWidth) * 100)))"

text \<open>
  The guarded accumulation \<open>for (i = a; i < b; i++) if (i < points.length - 1) ...\<close>
  that the position score and the centre point use.
\<close>

definition accumulateLength :: "point list \<Rightarrow> nat \<Rightarrow> nat \<Rightarrow> real" where
  "accumulateLength ps a b =
     foldl (\<lambda>acc i. if i + 1 < length ps then acc + distance (ps ! i) (ps ! (i + 1)) else acc)
       0 [a..<b]"

definition calculatePositionScore :: "RiverPath \<Rightarrow> nat \<Rightarrow> nat \<Rightarrow> real" where
  "calculatePositionScore path s e =
     (let ps = points path;
          totalLen = path_length path;
          distanceToSegmentStart = accumulateLength ps 0 s;
          segmentLength = accumulateLength ps s e;
          segmentCenter = distanceToSegmentStart + segmentLength / 2;
          pathCenter = totalLen / 2;
          centerDistance = \<bar>segmentCenter - pathCenter\<bar>;
          maxDistance = totalLen / 2
      in if maxDistance > 0 then 100 * (1 - centerDistance / maxDistance) else 100)"

function wrapDown :: "real \<Rightarrow> real" where
  "wrapDown diff = (if diff > pi then wrapDown (diff - 2 * pi) else diff)"
  by pat_completeness auto
termination
proof (relation "measure (\<lambda>d. nat \<lceil>(d - pi) / (2 * pi)\<rceil>)", simp)
  fix diff :: real
  assume gt: "pi < diff"
  have eq: "(diff - 2 * pi - pi) / (2 * pi) = (diff - pi) / (2 * pi) - 1"
    by (simp add: field_simps)
  have "0 < (diff - pi) / (2 * pi)"
    using gt by simp
  then have "1 \<le> \<lceil>(diff - pi) / (2 * pi)\<rceil>"
    by linarith
  then show "(diff - 2 * pi, diff) \<in> measure (\<lambda>d. nat \<lceil>(d - pi) / (2 * pi)\<rceil>)"
    unfolding in_measure eq by simp
qed

declare wrapDown.simps [simp del]

function wrapUp :: "real \<Rightarrow> real" where
  "wrapUp diff = (if diff < - pi then wrapUp (diff + 2 * pi) else diff)"
  by pat_completeness auto
termination
proof (relation "measure (\<lambda>d. nat \<lceil>(- pi - d) / (2 * pi)\<rceil>)", simp)
  fix diff :: real
  assume lt: "diff < - pi"
  have eq: "(- pi - (diff + 2 * pi)) / (2 * pi) = (- pi - diff) / (2 * pi) - 1"
    by (simp add: field_simps)
  have "0 < (- pi - diff) / (2 * pi)"
    using lt by simp
  then have "1 \<le> \<lceil>(- pi - diff) / (2 * pi)\<rceil>"
    by linarith
  then show "(diff + 2 * pi, diff) \<in> measure (\<lambda>d. nat \<lceil>(- pi - d) / (2 * pi)\<rceil>)"
    unfolding in_measure eq by simp
qed

declare wrapUp.simps [simp del]

definition calculateStraightnessScore :: "RiverPath \<Rightarrow> nat \<Rightarrow> nat \<Rightarrow> real" where
  "calculateStraightnessScore path s e =
     (let ps = points path
      in if int e - int s < 2 then 100
         else
           (let angles =
                  map (\<lambda>i. atan2 (py (ps ! (i + 1)) - py (ps ! i)) (px (ps ! (i + 1)) - px (ps ! i)))
                    (filter (\<lambda>i. i + 1 < length ps) [s..<e])
            in if length angles = 0 then 100
               else
                 (let avgAngle = foldl (+) 0 angles / real (length angles);
                      varianceSum =
                        foldl (\<lambda>acc angle.
                                 let diff = wrapUp (wrapDown (angle - avgAngle))
                                 in acc + diff * diff) 0 angles;
                      variance = varianceSum / real (length angles);
                      varianceDegrees = sqrt variance * (180 / pi)
                  in max 0 (100 - varianceDegrees * 5))))"

definition scoreSegment ::
  "RiverPath \<Rightarrow> nat \<Rightarrow> nat \<Rightarrow> GeometryMetrics \<Rightarrow> real \<times> ComponentScores" where
  "scoreSegment path s e metrics =
     (let curvatureScore = calculateCurvatureScore path s e metrics;
          widthScore = calculateWidthScore path s e;
          positionScore = calculatePositionScore path s e;
          straightnessScore = calculateStraightnessScore path s e;
          overallScore =
            curvatureScore * 0.4 + widthScore * 0.2 + positionScore * 0.2
              + straightnessScore * 0.2
      in (overallScore,
          \<lparr>curvature = curvatureScore, width = widthScore, position = positionScore,
           straightness = straightnessScore\<rparr>))"

function centerLoop :: "point list \<Rightarrow> nat \<Rightarrow> nat \<Rightarrow> real \<Rightarrow> real \<Rightarrow> point option" where
  "centerLoop ps i e targetLength acc =
     (if i < e then
        (if i + 1 < length ps then
           (let p1 = ps ! i; p2 = ps ! (i + 1);
                segLen = distance p1 p2
            in if acc + segLen \<ge> targetLength then
                 (let remainingLength = targetLength - acc;
                      ratio = (if segLen > 0 then remainingLength / segLen else 0)
                  in Some \<lparr>px = px p1 + (px p2 - px p1) * ratio,
                           py = py p1 + (py p2 - py p1) * ratio\<rparr>)
               else centerLoop ps (i + 1) e targetLength (acc + segLen))
         else centerLoop ps (i + 1) e targetLength acc)
      else (case elemAt ps (int e) of
              Some p \<Rightarrow> Some p
            | None \<Rightarrow> elemAt ps (int (length ps) - 1)))"
  by pat_completeness auto
termination
  by (relation "measure (\<lambda>(ps, i, e, t, acc). e - i)") auto

declare centerLoop.simps [simp del]

definition calculateCenterPoint :: "RiverPath \<Rightarrow> nat \<Rightarrow> nat \<Rightarrow> point option" where
  "calculateCenterPoint path s e =
     centerLoop (points path) s e (accumulateLength (points path) s e / 2) 0"

text \<open>The candidate object that both enumerations push.\<close>

definition makeCandidate ::
  "RiverPath \<Rightarrow> GeometryMetrics \<Rightarrow> nat \<Rightarrow> nat \<Rightarrow> real \<Rightarrow> Candidate" where
  "makeCandidate path metrics s e segmentLength =
     \<lparr>segment = \<lparr>startIdx = int s, endIdx = int e, seg_length = segmentLength, reason = None\<rparr>,
      score = fst (scoreSegment path s e metrics),
      scores = snd (scoreSegment path s e metrics),
      centerPoint = calculateCenterPoint path s e\<rparr>"

definition segmentIndices :: "segment \<Rightarrow> int set" where
  "segmentIndices seg = {startIdx seg..endIdx seg}"

definition rejectedIndices :: "GeometryMetrics \<Rightarrow> int set" where
  "rejectedIndices metrics =
     (\<Union>seg \<in> set (sharpCurves metrics). segmentIndices seg)
     \<union> (\<Union>seg \<in> set (narrowSections metrics). segmentIndices seg)
     \<union> segmentIndices (edgeStart (edgeSections metrics))
     \<union> segmentIndices (edgeEnd (edgeSections metrics))"

text \<open>The inner loop of \<open>findCandidates\<close>, at \<open>endIdx = e\<close>.\<close>

function extendLoop ::
  "RiverPath \<Rightarrow> real \<Rightarrow> GeometryMetrics \<Rightarrow> nat \<Rightarrow> nat \<Rightarrow> real \<Rightarrow> Candidate list
     \<Rightarrow> Candidate list" where
  "extendLoop path textLength metrics s e segmentLength candidates =
     (if e < length (points path) then
        (if int e \<in> rejectedIndices metrics then candidates
         else
           (let segmentLength' =
                  segmentLength + distance (points path ! (e - 1)) (points path ! e);
                hasRejectedPoint =
                  list_ex (\<lambda>i. int i \<in> rejectedIndices metrics) [s + 1..<e]
            in if hasRejectedPoint then candidates
               else extendLoop path textLength metrics s (e + 1) segmentLength'
                      (if segmentLength' \<ge> textLength
                       then candidates @ [makeCandidate path metrics s e segmentLength']
                       else candidates)))
      else candidates)"
  by pat_completeness auto
termination
  by (relation "measure (\<lambda>(path, t, m, s, e, len, cs). length (points path) - e)") auto

declare extendLoop.simps [simp del]

definition findCandidates :: "RiverPath \<Rightarrow> real \<Rightarrow> GeometryMetrics \<Rightarrow> Candidate list" where
  "findCandidates path textLength metrics =
     foldl (\<lambda>candidates s.
              if int s \<in> rejectedIndices metrics then candidates
              else extendLoop path textLength metrics s (s + 1) 0 candidates)
       [] [0..<length (points path) - 1]"

text \<open>
  The inner loop of \<open>_findAllValidSegments\<close>, at index \<open>i\<close>: it returns
  \<open>(segmentLength, endIdx)\<close>.
\<close>

function runLoop ::
  "RiverPath \<Rightarrow> GeometryMetrics \<Rightarrow> nat \<Rightarrow> real \<Rightarrow> nat \<Rightarrow> real \<times> nat" where
  "runLoop path metrics i segmentLength e =
     (if i < length (points path) then
        (if int i \<in> rejectedIndices metrics then (segmentLength, e)
         else runLoop path metrics (i + 1)
                (segmentLength + distance (points path ! (i - 1)) (points path ! i)) i)
      else (segmentLength, e))"
  by pat_completeness auto
termination
  by (relation "measure (\<lambda>(path, m, i, len, e). length (points path) - i)") auto

declare runLoop.simps [simp del]

text \<open>
  The outer loop, at \<open>startIdx = s\<close>. After a segment is pushed the source sets
  \<open>startIdx = endIdx\<close> and the loop header adds one.
\<close>

function validLoop ::
  "RiverPath \<Rightarrow> GeometryMetrics \<Rightarrow> nat \<Rightarrow> Candidate list \<Rightarrow> Candidate list" where
  "validLoop path metrics s segments =
     (if s + 1 < length (points path) then
        (if int s \<in> rejectedIndices metrics then validLoop path metrics (s + 1) segments
         else
           (let r = runLoop path metrics (s + 1) 0 s
            in if fst r > 0 \<and> snd r > s then
                 validLoop path metrics (snd r + 1)
                   (segments @ [makeCandidate path metrics s (snd r) (fst r)])
               else validLoop path metrics (s + 1) segments))
      else segments)"
  by pat_completeness auto
termination
  by (relation "measure (\<lambda>(path, m, s, segs). length (points path) - s)") auto

declare validLoop.simps [simp del]

definition findAllValidSegments :: "RiverPath \<Rightarrow> GeometryMetrics \<Rightarrow> Candidate list" where
  "findAllValidSegments path metrics = validLoop path metrics 0 []"

text \<open>
  \<open>selectOptimal\<close> returns \<open>None\<close> for \<open>null\<close>. With two or more candidates whose scores
  are all below \<open>-1\<close> the list of top candidates is empty and reading its first element's
  \<open>scores\<close> raises.
\<close>

definition selectOptimal :: "Candidate list \<Rightarrow> error + Candidate option" where
  "selectOptimal candidates =
     (if length candidates = 0 then Inr None
      else if length candidates = 1 then Inr (Some (candidates ! 0))
      else
        (let maxScore = foldl (\<lambda>m c. if score c > m then score c else m) (- 1) candidates;
             topCandidates = filter (\<lambda>c. score c = maxScore) candidates
         in if length topCandidates = 1 then Inr (Some (topCandidates ! 0))
            else
              (case topCandidates of
                 [] \<Rightarrow> Inl TypeError
               | first # rest \<Rightarrow>
                   Inr (Some (fst
                     (foldl (\<lambda>(bestCandidate, bestPositionScore) c.
                               if position (scores c) > bestPositionScore
                               then (c, position (scores c))
                               else (bestCandidate, bestPositionScore))
                        (first, position (scores first)) rest))))))"

text \<open>
  The two warning messages; the second carries the two lengths that the message prints.
\<close>

datatype warning =
    EntirePathProblematic         \<comment> \<open>'No suitable placement found: entire river path has problematic geometry ...'\<close>
  | TextExceedsSegment real real  \<comment> \<open>'Text length (t px) exceeds longest suitable segment (l px). ...'\<close>

record PlacementResult =
  placement :: "Candidate option"
  warning :: "warning option"
  allCandidates :: "Candidate list"
  textLength :: real

definition longestSegment :: "Candidate list \<Rightarrow> Candidate" where
  "longestSegment allSegments =
     foldl (\<lambda>longest seg.
              if seg_length (segment seg) > seg_length (segment longest) then seg else longest)
       (allSegments ! 0) allSegments"

definition findOptimalPlacement ::
  "(real \<Rightarrow> string \<Rightarrow> string \<Rightarrow> real) option \<Rightarrow> RiverPath \<Rightarrow> string \<Rightarrow> real
     \<Rightarrow> GeometryMetrics \<Rightarrow> string \<Rightarrow> error + PlacementResult" where
  "findOptimalPlacement ctx path text fontSize metrics fontFamily =
     (let len = measureTextLength ctx text fontSize fontFamily;
          candidates = findCandidates path len metrics
      in if length candidates > 0 then
           (case selectOptimal candidates of
              Inl err \<Rightarrow> Inl err
            | Inr optimal \<Rightarrow>
                Inr \<lparr>placement = optimal, warning = None, allCandidates = candidates,
                     textLength = len\<rparr>)
         else
           (let allSegments = findAllValidSegments path metrics
            in if length allSegments = 0 then
                 Inr \<lparr>placement = None, warning = Some EntirePathProblematic,
                      allCandidates = [], textLength = len\<rparr>
               else
                 (let longest = longestSegment allSegments
                  in Inr \<lparr>placement = Some longest,
                          warning = Some (TextExceedsSegment len (seg_length (segment longest))),
                          allCandidates = allSegments, textLength = len\<rparr>)))"

section \<open>TextPlacer\<close>

text \<open>
  The measuring context gives the advance width of one character; without a canvas
  the source uses a mock whose width is \<open>fontSize * 0.6\<close>.
\<close>

definition getMeasureContext :: "(real \<Rightarrow> char \<Rightarrow> real) option \<Rightarrow> real \<Rightarrow> char \<Rightarrow> real" where
  "getMeasureContext measureCtx fontSize =
     (case measureCtx of
        Some measureText \<Rightarrow> measureText fontSize
      | None \<Rightarrow> (\<lambda>c. fontSize * 0.6))"

text \<open>
  A position on the path. A coordinate is \<open>None\<close> when the source computes NaN: the
  interpolation inside a segment of length zero divides by that length.
\<close>

record Position =
  pos_x :: "real option"
  pos_y :: "real option"
  pos_angle :: real

record CharacterPlacement =
  pl_char :: char
  pl_x :: "real option"
  pl_y :: "real option"
  pl_angle :: real
  pl_width :: real

text \<open>
  The position returned when the walk has passed the end of the path, and for a
  distance of zero at the last point: the last point, with the direction of the segment
  that reaches it. With a single point there is no such segment and the read raises.
\<close>

definition atPoint :: "point list \<Rightarrow> nat \<Rightarrow> error + Position" where
  "atPoint ps k =
     (case elemAt ps (int k - 1) of
        None \<Rightarrow> Inl TypeError
      | Some prev \<Rightarrow>
          Inr \<lparr>pos_x = Some (px (ps ! k)), pos_y = Some (py (ps ! k)),
               pos_angle = atan2 (py (ps ! k) - py prev) (px (ps ! k) - px prev)\<rparr>)"

function walkPath :: "point list \<Rightarrow> nat \<Rightarrow> real \<Rightarrow> error + Position" where
  "walkPath ps currentIdx remainingDistance =
     (if currentIdx + 1 < length ps then
        (let p1 = ps ! currentIdx; p2 = ps ! (currentIdx + 1);
             dx = px p2 - px p1; dy = py p2 - py p1;
             segmentLength = sqrt (dx * dx + dy * dy)
         in if remainingDistance \<le> segmentLength then
              (if segmentLength = 0 then
                 Inr \<lparr>pos_x = None, pos_y = None, pos_angle = atan2 dy dx\<rparr>
               else
                 (let t = remainingDistance / segmentLength
                  in Inr \<lparr>pos_x = Some (px p1 + dx * t), pos_y = Some (py p1 + dy * t),
                          pos_angle = atan2 dy dx\<rparr>))
            else walkPath ps (currentIdx + 1) (remainingDistance - segmentLength))
      else atPoint ps (length ps - 1))"
  by pat_completeness auto
termination
  by (relation "measure (\<lambda>(ps, i, d). length ps - i)") auto

declare walkPath.simps [simp del]

definition interpolatePosition :: "RiverPath \<Rightarrow> int \<Rightarrow> real \<Rightarrow> error + Position" where
  "interpolatePosition path startI targetDistance =
     (let ps = points path
      in if length ps = 0 then Inl InvalidPathNoPoints
         else if startI < 0 \<or> startI \<ge> int (length ps) then
           Inl (InvalidStartIdx startI (length ps))
         else
           (let currentIdx = nat startI
            in if targetDistance = 0 then
                 (if currentIdx + 1 < length ps then
                    Inr \<lparr>pos_x = Some (px (ps ! currentIdx)), pos_y = Some (py (ps ! currentIdx)),
                         pos_angle =
                           atan2 (py (ps ! (currentIdx + 1)) - py (ps ! currentIdx))
                                 (px (ps ! (currentIdx + 1)) - px (ps ! currentIdx))\<rparr>
                  else atPoint ps currentIdx)
               else walkPath ps currentIdx targetDistance))"

fun placeLoop ::
  "(char \<Rightarrow> real) \<Rightarrow> RiverPath \<Rightarrow> int \<Rightarrow> string \<Rightarrow> real \<Rightarrow> CharacterPlacement list
     \<Rightarrow> error + CharacterPlacement list" where
  "placeLoop measureText path startI [] currentDistance placements = Inr placements"
| "placeLoop measureText path startI (c # rest) currentDistance placements =
     (let charWidth = measureText c
      in case interpolatePosition path startI (currentDistance + charWidth / 2) of
           Inl err \<Rightarrow> Inl err
         | Inr pos \<Rightarrow>
             placeLoop measureText path startI rest (currentDistance + charWidth)
               (placements @ [\<lparr>pl_char = c, pl_x = pos_x pos, pl_y = pos_y pos,
                                pl_angle = pos_angle pos, pl_width = charWidth\<rparr>]))"

definition placeText ::
  "(real \<Rightarrow> char \<Rightarrow> real) option \<Rightarrow> string \<Rightarrow> RiverPath \<Rightarrow> int \<Rightarrow> real
     \<Rightarrow> error + CharacterPlacement list" where
  "placeText measureCtx text path startI fontSize =
     (if length text = 0 then Inr []
      else if length (points path) = 0 then Inl InvalidPathNoPoints
      else if startI < 0 \<or> startI \<ge> int (length (points path)) then
        Inl (InvalidStartIdx startI (length (points path)))
      else placeLoop (getMeasureContext measureCtx fontSize) path startI text 0 [])"

section \<open>Analysis and scoring in double arithmetic\<close>

text \<open>
  The sections above read the arithmetic of the source over the reals. That is what the
  source computes, up to rounding, as long as no intermediate result leaves the range of
  the doubles. This section follows the path length, the curvature, the edge sections,
  the enumeration of the windows and the curvature, position and overall scores where
  a result does leave it. A number is a finite real, an infinity or NaN, and the result
  of an operation on finite numbers whose magnitude is \<open>2 ^ 1024\<close> or more is an
  infinity. The operations on the infinities and on NaN are those of IEEE 754. Not
  modelled: the rounding of a finite result to the nearest double, underflow, and the
  sign of a zero (every zero is \<open>+0\<close>).
\<close>

datatype jsnum =
    Fin real   \<comment> \<open>a finite number\<close>
  | PInf       \<comment> \<open>Infinity\<close>
  | NInf       \<comment> \<open>-Infinity\<close>
  | NaN

definition toDouble :: "real \<Rightarrow> jsnum" where
  "toDouble x = (if x \<ge> 2 ^ 1024 then PInf else if x \<le> - (2 ^ 1024) then NInf else Fin x)"

fun jneg :: "jsnum \<Rightarrow> jsnum" where
  "jneg (Fin a) = Fin (- a)"
| "jneg PInf = NInf"
| "jneg NInf = PInf"
| "jneg NaN = NaN"

fun jadd :: "jsnum \<Rightarrow> jsnum \<Rightarrow> jsnum" where
  "jadd (Fin a) (Fin b) = toDouble (a + b)"
| "jadd NaN y = NaN"
| "jadd x NaN = NaN"
| "jadd PInf NInf = NaN"
| "jadd NInf PInf = NaN"
| "jadd PInf y = PInf"
| "jadd x PInf = PInf"
| "jadd NInf y = NInf"
| "jadd x NInf = NInf"

definition jsub :: "jsnum \<Rightarrow> jsnum \<Rightarrow> jsnum" where
  "jsub x y = jadd x (jneg y)"

fun jmul :: "jsnum \<Rightarrow> jsnum \<Rightarrow> jsnum" where
  "jmul (Fin a) (Fin b) = toDouble (a * b)"
| "jmul NaN y = NaN"
| "jmul x NaN = NaN"
| "jmul PInf (Fin b) = (if b > 0 then PInf else if b < 0 then NInf else NaN)"
| "jmul NInf (Fin b) = (if b > 0 then NInf else if b < 0 then PInf else NaN)"
| "jmul (Fin a) PInf = (if a > 0 then PInf else if a < 0 then NInf else NaN)"
| "jmul (Fin a) NInf = (if a > 0 then NInf else if a < 0 then PInf else NaN)"
| "jmul PInf PInf = PInf"
| "jmul PInf NInf = NInf"
| "jmul NInf PInf = NInf"
| "jmul NInf NInf = PInf"

fun jdiv :: "jsnum \<Rightarrow> jsnum \<Rightarrow> jsnum" where
  "jdiv (Fin a) (Fin b) =
     (if b = 0 then (if a > 0 then PInf else if a < 0 then NInf else NaN)
      else toDouble (a / b))"
| "jdiv NaN y = NaN"
| "jdiv x NaN = NaN"
| "jdiv (Fin a) PInf = Fin 0"
| "jdiv (Fin a) NInf = Fin 0"
| "jdiv PInf (Fin b) = (if b \<ge> 0 then PInf else NInf)"
| "jdiv NInf (Fin b) = (if b \<ge> 0 then NInf else PInf)"
| "jdiv PInf PInf = NaN"
| "jdiv PInf NInf = NaN"
| "jdiv NInf PInf = NaN"
| "jdiv NInf NInf = NaN"

text \<open>\<open>Math.sqrt\<close>, \<open>Math.abs\<close> and \<open>Math.acos\<close>.\<close>

fun jsqrt :: "jsnum \<Rightarrow> jsnum" where
  "jsqrt (Fin a) = (if a < 0 then NaN else Fin (sqrt a))"
| "jsqrt PInf = PInf"
| "jsqrt NInf = NaN"
| "jsqrt NaN = NaN"

fun jabs :: "jsnum \<Rightarrow> jsnum" where
  "jabs (Fin a) = Fin \<bar>a\<bar>"
| "jabs PInf = PInf"
| "jabs NInf = PInf"
| "jabs NaN = NaN"

fun jacos :: "jsnum \<Rightarrow> jsnum" where
  "jacos (Fin a) = (if a < - 1 \<or> a > 1 then NaN else Fin (arccos a))"
| "jacos PInf = NaN"
| "jacos NInf = NaN"
| "jacos NaN = NaN"

text \<open>The comparisons \<open><\<close>, \<open>>=\<close> and \<open>===\<close>: each is false when an operand is NaN.\<close>

fun jless :: "jsnum \<Rightarrow> jsnum \<Rightarrow> bool" where
  "jless (Fin a) (Fin b) = (a < b)"
| "jless NaN y = False"
| "jless x NaN = False"
| "jless PInf y = False"
| "jless x NInf = False"
| "jless NInf y = True"
| "jless x PInf = True"

fun jge :: "jsnum \<Rightarrow> jsnum \<Rightarrow> bool" where
  "jge (Fin a) (Fin b) = (a \<ge> b)"
| "jge NaN y = False"
| "jge x NaN = False"
| "jge PInf y = True"
| "jge x NInf = True"
| "jge NInf y = False"
| "jge x PInf = False"

fun jeq :: "jsnum \<Rightarrow> jsnum \<Rightarrow> bool" where
  "jeq (Fin a) (Fin b) = (a = b)"
| "jeq PInf PInf = True"
| "jeq NInf NInf = True"
| "jeq x y = False"

text \<open>\<open>Math.max\<close> and \<open>Math.min\<close> return NaN when an argument is NaN.\<close>

definition jmax :: "jsnum \<Rightarrow> jsnum \<Rightarrow> jsnum" where
  "jmax x y = (if x = NaN \<or> y = NaN then NaN else if jless x y then y else x)"

definition jmin :: "jsnum \<Rightarrow> jsnum \<Rightarrow> jsnum" where
  "jmin x y = (if x = NaN \<or> y = NaN then NaN else if jless y x then y else x)"

text \<open>
  Each function below follows the source function of its name, less the suffix \<open>D\<close>.
  The coordinates of a point are finite numbers, since \<open>validate\<close> has accepted them.
  \<open>x > y\<close> is written \<open>jless y x\<close>.
\<close>

definition distanceD :: "point \<Rightarrow> point \<Rightarrow> jsnum" where
  "distanceD p1 p2 =
     (let dx = jsub (Fin (px p2)) (Fin (px p1));
          dy = jsub (Fin (py p2)) (Fin (py p1))
      in jsqrt (jadd (jmul dx dx) (jmul dy dy)))"

definition totalLengthD :: "point list \<Rightarrow> jsnum" where
  "totalLengthD ps =
     foldl (\<lambda>acc i.
        let dx = jsub (Fin (px (ps ! i))) (Fin (px (ps ! (i - 1))));
            dy = jsub (Fin (py (ps ! i))) (Fin (py (ps ! (i - 1))))
        in jadd acc (jsqrt (jadd (jmul dx dx) (jmul dy dy)))) (Fin 0) [1..<length ps]"

definition rawCurvatureD :: "point list \<Rightarrow> nat \<Rightarrow> jsnum" where
  "rawCurvatureD ps i =
     (let p0 = ps ! (i - 1); p1 = ps ! i; p2 = ps ! (i + 1);
          v1x = jsub (Fin (px p1)) (Fin (px p0)); v1y = jsub (Fin (py p1)) (Fin (py p0));
          v2x = jsub (Fin (px p2)) (Fin (px p1)); v2y = jsub (Fin (py p2)) (Fin (py p1));
          mag1 = jsqrt (jadd (jmul v1x v1x) (jmul v1y v1y));
          mag2 = jsqrt (jadd (jmul v2x v2x) (jmul v2y v2y))
      in if jeq mag1 (Fin 0) \<or> jeq mag2 (Fin 0) then Fin 0
         else
           (let dotProduct = jadd (jmul v1x v2x) (jmul v1y v2y);
                cosAngle = jdiv dotProduct (jmul mag1 mag2);
                clampedCos = jmax (Fin (- 1)) (jmin (Fin 1) cosAngle);
                angleRad = jacos clampedCos;
                angleDeg = jmul angleRad (jdiv (Fin 180) (Fin pi));
                avgDistance = jdiv (jadd mag1 mag2) (Fin 2)
            in if jless (Fin 0) avgDistance then jdiv angleDeg avgDistance else Fin 0))"

definition rawCurvaturesD :: "point list \<Rightarrow> jsnum list" where
  "rawCurvaturesD ps =
     map (\<lambda>i. if 1 \<le> i \<and> i + 1 < length ps then rawCurvatureD ps i else Fin 0) [0..<length ps]"

definition calculateCurvatureD :: "point list \<Rightarrow> jsnum list" where
  "calculateCurvatureD ps =
     (let n = length ps
      in if n < 3 then []
         else
           (let raw = rawCurvaturesD ps
            in map (\<lambda>i.
                 if i = 0 \<or> i = n - 1 then Fin 0
                 else if i = 1 then jdiv (jadd (raw ! i) (raw ! (i + 1))) (Fin 2)
                 else if i = n - 2 then jdiv (jadd (raw ! (i - 1)) (raw ! i)) (Fin 2)
                 else jdiv (jadd (jadd (raw ! (i - 1)) (raw ! i)) (raw ! (i + 1))) (Fin 3))
               [0..<n]))"

text \<open>
  The tests \<open>curvatures[i] > threshold\<close> of \<open>findSharpCurves\<close>, for the run scan
  \<open>findRuns\<close>.
\<close>

definition sharpHitsD :: "jsnum list \<Rightarrow> real \<Rightarrow> bool list" where
  "sharpHitsD cs threshold = map (\<lambda>c. jless (Fin threshold) c) cs"

function edgeStartLoopD :: "point list \<Rightarrow> jsnum \<Rightarrow> nat \<Rightarrow> jsnum \<Rightarrow> nat" where
  "edgeStartLoopD ps edgeThreshold i acc =
     (if i + 1 < length ps then
        (let acc' = jadd acc (distanceD (ps ! i) (ps ! (i + 1)))
         in if jge acc' edgeThreshold then i + 1
            else edgeStartLoopD ps edgeThreshold (i + 1) acc')
      else 0)"
  by pat_completeness auto
termination
  by (relation "measure (\<lambda>(ps, t, i, acc). length ps - i)") auto

declare edgeStartLoopD.simps [simp del]

fun edgeEndLoopD :: "point list \<Rightarrow> jsnum \<Rightarrow> nat \<Rightarrow> jsnum \<Rightarrow> int \<Rightarrow> int" where
  "edgeEndLoopD ps edgeThreshold 0 acc initial = initial"
| "edgeEndLoopD ps edgeThreshold (Suc k) acc initial =
     (let acc' = jadd acc (distanceD (ps ! Suc k) (ps ! k))
      in if jge acc' edgeThreshold then int k
         else edgeEndLoopD ps edgeThreshold k acc' initial)"

text \<open>
  The two indices \<open>(startEndIdx, endStartIdx)\<close> that \<open>getEdgeSections\<close> computes: the
  start section runs from \<open>0\<close> to the first, the end section from the second to the
  last point.
\<close>

definition edgeBoundsD :: "point list \<Rightarrow> jsnum \<Rightarrow> nat \<times> int" where
  "edgeBoundsD ps totalLen =
     (let n = length ps;
          edgeThreshold = jmul totalLen (Fin 0.1);
          startEndIdx0 = edgeStartLoopD ps edgeThreshold 0 (Fin 0);
          startEndIdx = (if startEndIdx0 = 0 \<and> n > 1 then n - 1 else startEndIdx0);
          endStartIdx0 = edgeEndLoopD ps edgeThreshold (n - 1) (Fin 0) (int n - 1);
          endStartIdx = (if endStartIdx0 = int n - 1 \<and> n > 1 then 0 else endStartIdx0)
      in (startEndIdx, endStartIdx))"

text \<open>The curvature score reads \<open>metrics.curvatures\<close> only, the list \<open>cs\<close>.\<close>

definition calculateCurvatureScoreD :: "jsnum list \<Rightarrow> nat \<Rightarrow> nat \<Rightarrow> jsnum" where
  "calculateCurvatureScoreD cs s e =
     (let (sm, cnt) =
            foldl (\<lambda>(sm, cnt) i. if i < length cs then (jadd sm (cs ! i), cnt + 1) else (sm, cnt))
              (Fin 0, 0 :: nat) [s..<Suc e];
          avgCurv = (if cnt > 0 then jdiv sm (Fin (real cnt)) else Fin 0)
      in jmax (Fin 0) (jsub (Fin 100) (jmul avgCurv (Fin 3))))"

definition accumulateLengthD :: "point list \<Rightarrow> nat \<Rightarrow> nat \<Rightarrow> jsnum" where
  "accumulateLengthD ps a b =
     foldl (\<lambda>acc i. if i + 1 < length ps then jadd acc (distanceD (ps ! i) (ps ! (i + 1))) else acc)
       (Fin 0) [a..<b]"

text \<open>The position score reads \<open>path.points\<close> and \<open>path.length\<close>, here \<open>totalLen\<close>.\<close>

definition calculatePositionScoreD :: "point list \<Rightarrow> jsnum \<Rightarrow> nat \<Rightarrow> nat \<Rightarrow> jsnum" where
  "calculatePositionScoreD ps totalLen s e =
     (let distanceToSegmentStart = accumulateLengthD ps 0 s;
          segmentLength = accumulateLengthD ps s e;
          segmentCenter = jadd distanceToSegmentStart (jdiv segmentLength (Fin 2));
          pathCenter = jdiv totalLen (Fin 2);
          centerDistance = jabs (jsub segmentCenter pathCenter);
          maxDistance = jdiv totalLen (Fin 2)
      in if jless (Fin 0) maxDistance
         then jmul (Fin 100) (jsub (Fin 1) (jdiv centerDistance maxDistance))
         else Fin 100)"

text \<open>The weighted sum of \<open>scoreSegment\<close>.\<close>

definition overallScoreD :: "jsnum \<Rightarrow> jsnum \<Rightarrow> jsnum \<Rightarrow> jsnum \<Rightarrow> jsnum" where
  "overallScoreD curvatureScore widthScore positionScore straightnessScore =
     jadd (jadd (jadd (jmul curvatureScore (Fin 0.4)) (jmul widthScore (Fin 0.2)))
                (jmul positionScore (Fin 0.2)))
          (jmul straightnessScore (Fin 0.2))"

text \<open>
  The rejected set of \<open>findCandidates\<close>, from the sharp and narrow sections and the two
  indices of the edge sections on a path of \<open>n\<close> points.
\<close>

definition rejectedD :: "segment list \<Rightarrow> segment list \<Rightarrow> nat \<times> int \<Rightarrow> nat \<Rightarrow> int set" where
  "rejectedD sharp narrow edgeBounds n =
     (\<Union>seg \<in> set sharp. segmentIndices seg)
     \<union> (\<Union>seg \<in> set narrow. segmentIndices seg)
     \<union> {0..int (fst edgeBounds)}
     \<union> {snd edgeBounds..int n - 1}"

text \<open>
  The two loops of \<open>findCandidates\<close>. They return the windows
  \<open>(startIdx, endIdx, segmentLength)\<close> for which the source creates a candidate.
\<close>

function extendLoopD ::
  "point list \<Rightarrow> real \<Rightarrow> int set \<Rightarrow> nat \<Rightarrow> nat \<Rightarrow> jsnum \<Rightarrow> (nat \<times> nat \<times> jsnum) list
     \<Rightarrow> (nat \<times> nat \<times> jsnum) list" where
  "extendLoopD ps textLen rejected s e segmentLength windows =
     (if e < length ps then
        (if int e \<in> rejected then windows
         else
           (let segmentLength' = jadd segmentLength (distanceD (ps ! (e - 1)) (ps ! e));
                hasRejectedPoint = list_ex (\<lambda>i. int i \<in> rejected) [s + 1..<e]
            in if hasRejectedPoint then windows
               else extendLoopD ps textLen rejected s (e + 1) segmentLength'
                      (if jge segmentLength' (Fin textLen)
                       then windows @ [(s, e, segmentLength')]
                       else windows)))
      else windows)"
  by pat_completeness auto
termination
  by (relation "measure (\<lambda>(ps, t, r, s, e, len, ws). length ps - e)") auto

declare extendLoopD.simps [simp del]

definition findWindowsD :: "point list \<Rightarrow> real \<Rightarrow> int set \<Rightarrow> (nat \<times> nat \<times> jsnum) list" where
  "findWindowsD ps textLen rejected =
     foldl (\<lambda>windows s.
              if int s \<in> rejected then windows
              else extendLoopD ps textLen rejected s (s + 1) (Fin 0) windows)
       [] [0..<length ps - 1]"

section \<open>Concrete inputs\<close>

text \<open>The path \<open>[(0,0), (10,0), (10,10)]\<close> with one right-angle turn.\<close>

definition turnPath :: RiverPath where
  "turnPath =
     \<lparr>points = [\<lparr>px = 0, py = 0\<rparr>, \<lparr>px = 10, py = 0\<rparr>, \<lparr>px = 10, py = 10\<rparr>],
      widths = None, path_length = 20,
      bounds = \<lparr>minX = 0, maxX = 10, minY = 0, maxY = 10\<rparr>\<rparr>"

text \<open>A triangle, and a ring whose four vertices coincide.\<close>

definition triangle :: "(real \<times> real) list" where
  "triangle = [(0, 0), (10, 0), (5, 5)]"

definition pointPolygon :: "(real \<times> real) list" where
  "pointPolygon = [(5, 5), (5, 5), (5, 5), (5, 5)]"

text \<open>Coordinate lists: a width on the last entry only, and a width missing in the middle.\<close>

definition lateWidthCoords :: "entry list" where
  "lateWidthCoords = [Arr [JNum 0, JNum 0], Arr [JNum 10, JNum 10], Arr [JNum 20, JNum 0, JNum 6]]"

definition nullWidthCoords :: "entry list" where
  "nullWidthCoords =
     [Arr [JNum 0, JNum 0, JNum 20], Arr [JNum 10, JNum 0], Arr [JNum 20, JNum 0, JNum 20]]"


text \<open>Paths of two points, of one point and of no point.\<close>

definition twoPointPath :: RiverPath where
  "twoPointPath =
     \<lparr>points = [\<lparr>px = 0, py = 0\<rparr>, \<lparr>px = 10, py = 0\<rparr>],
      widths = None, path_length = 10,
      bounds = \<lparr>minX = 0, maxX = 10, minY = 0, maxY = 0\<rparr>\<rparr>"

definition onePointPath :: RiverPath where
  "onePointPath =
     \<lparr>points = [\<lparr>px = 0, py = 0\<rparr>],
      widths = None, path_length = 0,
      bounds = \<lparr>minX = 0, maxX = 0, minY = 0, maxY = 0\<rparr>\<rparr>"

definition noPointPath :: RiverPath where
  "noPointPath =
     \<lparr>points = [],
      widths = None, path_length = 0,
      bounds = \<lparr>minX = 0, maxX = 0, minY = 0, maxY = 0\<rparr>\<rparr>"


text \<open>
  Straight paths along the x axis, as coordinate lists and as the paths and the metrics
  that parsing and analysis give for them: six points ten apart, and five points a
  hundred apart.
\<close>

definition linePoints :: "nat \<Rightarrow> real \<Rightarrow> point list" where
  "linePoints n step = map (\<lambda>i. \<lparr>px = step * real i, py = 0\<rparr>) [0..<n]"

definition straightCoords :: "entry list" where
  "straightCoords =
     [Arr [JNum 0, JNum 0], Arr [JNum 10, JNum 0], Arr [JNum 20, JNum 0],
      Arr [JNum 30, JNum 0], Arr [JNum 40, JNum 0], Arr [JNum 50, JNum 0]]"

definition straightPath :: RiverPath where
  "straightPath =
     \<lparr>points = linePoints 6 10, widths = None, path_length = 50,
      bounds = \<lparr>minX = 0, maxX = 50, minY = 0, maxY = 0\<rparr>\<rparr>"

definition straightMetrics :: GeometryMetrics where
  "straightMetrics =
     \<lparr>curvatures = [0, 0, 0, 0, 0, 0],
      sharpCurves = [],
      narrowSections = [],
      edgeSections =
        \<lparr>edgeStart = \<lparr>startIdx = 0, endIdx = 1, seg_length = 10, reason = Some EdgeSection\<rparr>,
         edgeEnd = \<lparr>startIdx = 4, endIdx = 5, seg_length = 10, reason = Some EdgeSection\<rparr>\<rparr>,
      avgCurvature = 0,
      maxCurvature = 0\<rparr>"

definition sparseCoords :: "entry list" where
  "sparseCoords =
     [Arr [JNum 0, JNum 0], Arr [JNum 100, JNum 0], Arr [JNum 200, JNum 0],
      Arr [JNum 300, JNum 0], Arr [JNum 400, JNum 0]]"

definition sparsePath :: RiverPath where
  "sparsePath =
     \<lparr>points = linePoints 5 100, widths = None, path_length = 400,
      bounds = \<lparr>minX = 0, maxX = 400, minY = 0, maxY = 0\<rparr>\<rparr>"

definition sparseMetrics :: GeometryMetrics where
  "sparseMetrics =
     \<lparr>curvatures = [0, 0, 0, 0, 0],
      sharpCurves = [],
      narrowSections = [],
      edgeSections =
        \<lparr>edgeStart = \<lparr>startIdx = 0, endIdx = 1, seg_length = 100, reason = Some EdgeSection\<rparr>,
         edgeEnd = \<lparr>startIdx = 3, endIdx = 4, seg_length = 100, reason = Some EdgeSection\<rparr>\<rparr>,
      avgCurvature = 0,
      maxCurvature = 0\<rparr>"

text \<open>
  The straight path of six points with widths on the last four entries only, the first
  of them negative.
\<close>

definition lateNegativeCoords :: "entry list" where
  "lateNegativeCoords =
     [Arr [JNum 0, JNum 0], Arr [JNum 10, JNum 0], Arr [JNum 20, JNum 0, JNum (- 5)],
      Arr [JNum 30, JNum 0, JNum 20], Arr [JNum 40, JNum 0, JNum 20],
      Arr [JNum 50, JNum 0, JNum 20]]"

definition lateNegativePath :: RiverPath where
  "lateNegativePath =
     \<lparr>points = linePoints 6 10,
      widths = Some [Some (- 5), Some 20, Some 20, Some 20],
      path_length = 50,
      bounds = \<lparr>minX = 0, maxX = 50, minY = 0, maxY = 0\<rparr>\<rparr>"

definition lateNegativeMetrics :: GeometryMetrics where
  "lateNegativeMetrics =
     \<lparr>curvatures = [0, 0, 0, 0, 0, 0],
      sharpCurves = [],
      narrowSections =
        [\<lparr>startIdx = 0, endIdx = 0, seg_length = 0, reason = Some NarrowSection\<rparr>],
      edgeSections =
        \<lparr>edgeStart = \<lparr>startIdx = 0, endIdx = 1, seg_length = 10, reason = Some EdgeSection\<rparr>,
         edgeEnd = \<lparr>startIdx = 4, endIdx = 5, seg_length = 10, reason = Some EdgeSection\<rparr>\<rparr>,
      avgCurvature = 0,
      maxCurvature = 0\<rparr>"

text \<open>
  Six points on a line whose spacing is a finite double with a square beyond the doubles.
\<close>

definition huge :: real where
  "huge = 10 ^ 160"

definition overflowCoords :: "entry list" where
  "overflowCoords =
     [Arr [JNum 0, JNum 0], Arr [JNum huge, JNum 0], Arr [JNum (2 * huge), JNum 0],
      Arr [JNum (3 * huge), JNum 0], Arr [JNum (4 * huge), JNum 0],
      Arr [JNum (5 * huge), JNum 0]]"


section \<open>Notions used in the statements and proofs\<close>

text \<open>
  The arclength of the window from index \<open>a\<close> to index \<open>b\<close>; a window all of whose
  indices are outside the rejected set; and the invariants of the two enumerations.
\<close>

abbreviation arcLength :: "point list \<Rightarrow> nat \<Rightarrow> nat \<Rightarrow> real" where
  "arcLength ps a b \<equiv> (\<Sum>i = a..<b. distance (ps ! i) (ps ! (i + 1)))"

definition fitsWindow :: "RiverPath \<Rightarrow> real \<Rightarrow> GeometryMetrics \<Rightarrow> Candidate \<Rightarrow> bool" where
  "fitsWindow path textLen metrics c \<longleftrightarrow>
     c = makeCandidate path metrics (nat (startIdx (segment c))) (nat (endIdx (segment c)))
           (seg_length (segment c))
     \<and> 0 \<le> startIdx (segment c) \<and> startIdx (segment c) < endIdx (segment c)
     \<and> endIdx (segment c) < int (length (points path))
     \<and> (\<forall>i. startIdx (segment c) \<le> i \<and> i \<le> endIdx (segment c) \<longrightarrow> i \<notin> rejectedIndices metrics)
     \<and> seg_length (segment c)
         = arcLength (points path) (nat (startIdx (segment c))) (nat (endIdx (segment c)))
     \<and> textLen \<le> seg_length (segment c)"

definition freeRun :: "RiverPath \<Rightarrow> GeometryMetrics \<Rightarrow> nat \<Rightarrow> nat \<Rightarrow> bool" where
  "freeRun path metrics a b \<longleftrightarrow>
     a \<le> b \<and> b < length (points path)
     \<and> (\<forall>j. a \<le> j \<and> j \<le> b \<longrightarrow> int j \<notin> rejectedIndices metrics)"

definition runCandidate :: "RiverPath \<Rightarrow> GeometryMetrics \<Rightarrow> Candidate \<Rightarrow> bool" where
  "runCandidate path metrics c \<longleftrightarrow>
     (\<exists>S E. c = makeCandidate path metrics S E (arcLength (points path) S E)
            \<and> S < E \<and> freeRun path metrics S E \<and> 0 < arcLength (points path) S E)"

definition coversRuns :: "RiverPath \<Rightarrow> GeometryMetrics \<Rightarrow> nat \<Rightarrow> Candidate list \<Rightarrow> bool" where
  "coversRuns path metrics s segs \<longleftrightarrow>
     (\<forall>a b. s \<le> a \<and> a < b \<and> freeRun path metrics a b \<and> 0 < arcLength (points path) a b
         \<longrightarrow> (\<exists>c\<in>set segs. arcLength (points path) a b \<le> seg_length (segment c)))"

text \<open>
  An index is covered by a state of the run scan when it lies in a segment already
  pushed, or in the run that is still open.
\<close>

definition covered :: "bool \<times> int \<times> segment list \<Rightarrow> int \<Rightarrow> bool" where
  "covered st x \<longleftrightarrow>
     (\<exists>seg\<in>set (snd (snd st)). startIdx seg \<le> x \<and> x \<le> endIdx seg)
     \<or> (fst st \<and> fst (snd st) \<le> x)"

text \<open>The width slot that an entry stands for: its third field, or \<open>null\<close>.\<close>

definition widthSlot :: "entry \<Rightarrow> real option" where
  "widthSlot coord = (if length (entryFields coord) = 3 then Some (numOf (entryFields coord ! 2)) else None)"

section \<open>Curvature, parsing and centerline extraction on concrete inputs\<close>


lemma rawCurvature_turnPath: "rawCurvature (points turnPath) 1 = 9"
  by (simp add: rawCurvature_def turnPath_def Let_def)

text \<open>
  Claim C8 as stated fails: on the path \<open>[(0,0), (10,0), (10,10)]\<close> the smoothed
  curvature at index 1 is not within 40 of 45, whatever tolerance "approximately" allows
  below that.
\<close>

theorem curvature_turn_counterexample:
  "\<not> (calculateCurvature turnPath ! 0 = 0 \<and> calculateCurvature turnPath ! 2 = 0
       \<and> 0 < calculateCurvature turnPath ! 1
       \<and> \<bar>calculateCurvature turnPath ! 1 - 45\<bar> \<le> 40)"
  using rawCurvature_turnPath
  by (simp add: calculateCurvature_def rawCurvatures_def turnPath_def Let_def upt_rec)

text \<open>
  Claim C8, as amended. On the path \<open>[(0,0), (10,0), (10,10)]\<close> the smoothed curvature
  profile is exactly 0 at indices 0 and 2, and at index 1 it is 4.5: the turn of 90 degrees
  divided by the average length 10 of the two adjacent segments, that is 9 degrees per
  unit, halved by smoothing against the zero-valued neighbour.
\<close>

theorem curvature_turn_profile:
  "calculateCurvature turnPath = [0, 9 / 2, 0]"
  using rawCurvature_turnPath
  by (simp add: calculateCurvature_def rawCurvatures_def turnPath_def Let_def upt_rec)

text \<open>
  Claim C5 at the input \<open>[[0,0], [10,10], [20,0,6]]\<close>: the path has three points, and
  its widths sequence has the single entry 6, at index 0; the claim asks for a sequence
  of length three with the width 6 at index 2.
\<close>

theorem parse_late_width_misaligned:
  "(case parse parsePolygon (CoordArray lateWidthCoords) of
      Inl err \<Rightarrow> False
    | Inr path \<Rightarrow> length (points path) = 3 \<and> widths path = Some [Some 6])"
  by (simp add: parse_def buildPath_def validate_def lateWidthCoords_def Let_def)

lemma calcSeg_empty: "calculateSegmentLength path s s = Inr 0"
  by (simp add: calculateSegmentLength_def calcSegLoop.simps)

text \<open>
  Claim C6 at the input \<open>[[0,0,20], [10,0], [20,0,20]]\<close> with the minimum width 10: the
  point at index 1 has no width (a \<open>null\<close> entry), and \<open>findNarrowSections\<close> returns
  the narrow section from index 1 to index 1; the claim says that a point without a width
  is never in a narrow section.
\<close>

theorem null_width_classified_narrow:
  "(case parse parsePolygon (CoordArray nullWidthCoords) of
      Inl err \<Rightarrow> False
    | Inr path \<Rightarrow>
        widths path = Some [Some 20, None, Some 20]
        \<and> findNarrowSections path 10
            = Inr [\<lparr>startIdx = 1, endIdx = 1, seg_length = 0, reason = Some NarrowSection\<rparr>])"
  by (simp add: parse_def buildPath_def validate_def nullWidthCoords_def Let_def
      findNarrowSections_def findRuns_def calcSeg_empty)

lemma map_filter_all_None: "\<forall>x\<in>set xs. f x = None \<Longrightarrow> List.map_filter f xs = []"
  by (simp add: List.map_filter_def filter_empty_conv)

lemma buildPath_empty: "buildPath [] = Inl TooFewPoints"
  by (simp add: buildPath_def validate_def)

text \<open>
  Claim C7, as amended. For a ring of at least 3 vertices for which no sample position
  yields 2 or more intersections, \<open>extractCenterline\<close> does not fail: it returns the
  empty centerline, and \<open>parse\<close> then rejects that centerline in validation, with the
  error 'River path must have at least 3 coordinate points'.
\<close>

theorem extractCenterline_no_cross_section:
  assumes len: "3 \<le> length polygonCoords"
    and none: "\<forall>i < numSamples (polygonFrame polygonCoords).
                 length (intersectionsAt polygonCoords i) < 2"
    and ring: "parsePolygon s = Inr polygonCoords"
  shows "extractCenterline polygonCoords = Inr []
         \<and> parse parsePolygon (WktString s) = Inl TooFewPoints"
proof -
  have "\<forall>i\<in>set [0..<numSamples (polygonFrame polygonCoords)]. crossSection polygonCoords i = None"
    using none by (auto simp: crossSection_def Let_def)
  then have "List.map_filter (crossSection polygonCoords)
               [0..<numSamples (polygonFrame polygonCoords)] = []"
    by (rule map_filter_all_None)
  then have ex: "extractCenterline polygonCoords = Inr []"
    using len by (simp add: extractCenterline_def smoothCenterline_def)
  then show ?thesis
    using ring by (simp add: parse_def buildPath_empty)
qed

text \<open>
  Claim C7 as stated fails on a triangle: its single sample position is NaN, no
  cross-section is usable, and the extraction returns the empty centerline instead of
  an error; the error that \<open>parse\<close> then returns is the one of validation, not wrapped
  as a failure of the WKT stage.
\<close>

theorem extractCenterline_triangle_counterexample:
  "extractCenterline triangle = Inr []
   \<and> parse (\<lambda>s. Inr triangle) (WktString ''POLYGON((0 0, 10 0, 5 5))'') = Inl TooFewPoints"
proof -
  have "extractCenterline triangle = Inr []"
    by (simp add: extractCenterline_def polygonFrame_def Let_def crossSection_def
        intersectionsAt_def samplePosition_def findIntersections_def smoothCenterline_def
        List.map_filter_simps upt_rec triangle_def)
  then show ?thesis by (simp add: parse_def buildPath_empty)
qed

text \<open>
  An instance of the amended claim C7: a ring of four coinciding vertices has two sample
  positions, neither with an intersection.
\<close>

theorem extractCenterline_no_cross_section_witness:
  "3 \<le> length pointPolygon
   \<and> numSamples (polygonFrame pointPolygon) = 2
   \<and> length (intersectionsAt pointPolygon 0) < 2
   \<and> length (intersectionsAt pointPolygon 1) < 2
   \<and> extractCenterline pointPolygon = Inr []
   \<and> parse (\<lambda>s. Inr pointPolygon) (WktString ''POLYGON((5 5, 5 5, 5 5, 5 5))'')
       = Inl TooFewPoints"
proof -
  have n: "numSamples (polygonFrame pointPolygon) = 2"
    by (simp add: polygonFrame_def pointPolygon_def Let_def)
  have i0: "intersectionsAt pointPolygon 0 = []"
    by (simp add: intersectionsAt_def polygonFrame_def pointPolygon_def Let_def
        samplePosition_def findIntersections_def List.map_filter_simps upt_rec)
  have i1: "intersectionsAt pointPolygon 1 = []"
    by (simp add: intersectionsAt_def polygonFrame_def pointPolygon_def Let_def
        samplePosition_def findIntersections_def List.map_filter_simps upt_rec)
  have h1: "3 \<le> length pointPolygon" by (simp add: pointPolygon_def)
  have h2: "\<forall>i < numSamples (polygonFrame pointPolygon). length (intersectionsAt pointPolygon i) < 2"
    unfolding n using i0 i1 by (auto simp: less_Suc_eq numeral_2_eq_2)
  have h3: "(\<lambda>s. Inr pointPolygon) ''POLYGON((5 5, 5 5, 5 5, 5 5))'' = (Inr pointPolygon :: error + (real \<times> real) list)"
    by simp
  from extractCenterline_no_cross_section[OF h1 h2 h3] show ?thesis
    using h1 n i0 i1 by simp
qed

section \<open>Selection of the optimal candidate\<close>












section \<open>Placing the characters of a label\<close>


lemma distance_nonneg: "0 \<le> distance p q"
  by (simp add: distance_def)

lemma distance_sq: "sqrt ((px q - px p) * (px q - px p) + (py q - py p) * (py q - py p)) = distance p q"
  by (simp add: distance_def power2_eq_square)

lemma atPoint_last:
  assumes "2 \<le> length ps"
  shows "atPoint ps (length ps - 1) =
           Inr \<lparr>pos_x = Some (px (ps ! (length ps - 1))), pos_y = Some (py (ps ! (length ps - 1))),
                pos_angle = atan2 (py (ps ! (length ps - 1)) - py (ps ! (length ps - 2)))
                                  (px (ps ! (length ps - 1)) - px (ps ! (length ps - 2)))\<rparr>"
proof -
  have "nat (int (length ps - 1) - 1) = length ps - 2" using assms by simp
  moreover have "0 \<le> int (length ps - 1) - 1" "int (length ps - 1) - 1 < int (length ps)"
    using assms by simp_all
  ultimately have "elemAt ps (int (length ps - 1) - 1) = Some (ps ! (length ps - 2))"
    unfolding elemAt_def by presburger
  then show ?thesis by (simp add: atPoint_def)
qed

lemma walkPath_total:
  "2 \<le> length ps \<Longrightarrow> \<exists>pos. walkPath ps cur remaining = Inr pos"
proof (induction ps cur remaining rule: walkPath.induct)
  case (1 ps currentIdx remainingDistance)
  show ?case
  proof (cases "currentIdx + 1 < length ps")
    case True
    then show ?thesis
      using "1.IH" "1.prems"
      by (subst walkPath.simps) (auto simp: Let_def)
  next
    case False
    then show ?thesis
      using atPoint_last[OF "1.prems"] by (subst walkPath.simps) simp
  qed
qed

lemma walkPath_past_end:
  "2 \<le> length ps \<Longrightarrow> cur < length ps
   \<Longrightarrow> (\<Sum>i = cur..<length ps - 1. distance (ps ! i) (ps ! (i + 1))) < remaining
   \<Longrightarrow> walkPath ps cur remaining = atPoint ps (length ps - 1)"
proof (induction ps cur remaining rule: walkPath.induct)
  case (1 ps currentIdx remainingDistance)
  show ?case
  proof (cases "currentIdx + 1 < length ps")
    case True
    let ?d = "distance (ps ! currentIdx) (ps ! (currentIdx + 1))"
    have split: "(\<Sum>i = currentIdx..<length ps - 1. distance (ps ! i) (ps ! (i + 1)))
                 = ?d + (\<Sum>i = currentIdx + 1..<length ps - 1. distance (ps ! i) (ps ! (i + 1)))"
      using True by (simp add: sum.atLeast_Suc_lessThan)
    have nn: "0 \<le> (\<Sum>i = currentIdx + 1..<length ps - 1. distance (ps ! i) (ps ! (i + 1)))"
      by (intro sum_nonneg) (simp add: distance_nonneg)
    have gt: "\<not> remainingDistance \<le> ?d"
      using "1.prems"(3) split nn by linarith
    have rest: "(\<Sum>i = currentIdx + 1..<length ps - 1. distance (ps ! i) (ps ! (i + 1)))
                < remainingDistance - ?d"
      using "1.prems"(3) split by linarith
    have "walkPath ps (currentIdx + 1) (remainingDistance - ?d) = atPoint ps (length ps - 1)"
      using "1.IH"[OF True refl refl refl refl refl _ "1.prems"(1) True] gt rest
      by (simp add: distance_sq)
    then show ?thesis
      using True gt by (subst walkPath.simps) (simp add: Let_def distance_sq)
  next
    case False
    then show ?thesis by (subst walkPath.simps) simp
  qed
qed

lemma interpolatePosition_total:
  assumes "2 \<le> length (points path)" "0 \<le> startI" "startI < int (length (points path))"
  shows "\<exists>pos. interpolatePosition path startI d = Inr pos"
proof (cases "d = 0")
  case True
  show ?thesis
  proof (cases "nat startI + 1 < length (points path)")
    case T: True
    then show ?thesis using assms True by (auto simp: interpolatePosition_def Let_def)
  next
    case False
    then have "nat startI = length (points path) - 1" using assms by linarith
    then show ?thesis
      using assms True False atPoint_last[OF assms(1)]
      by (auto simp: interpolatePosition_def Let_def)
  qed
next
  case False
  then show ?thesis
    using assms walkPath_total[OF assms(1)] by (auto simp: interpolatePosition_def Let_def)
qed

lemma interpolatePosition_past_end:
  assumes "2 \<le> length (points path)" "0 \<le> startI" "startI < int (length (points path))"
    and "(\<Sum>i = nat startI..<length (points path) - 1.
            distance (points path ! i) (points path ! (i + 1))) < d"
  shows "interpolatePosition path startI d = atPoint (points path) (length (points path) - 1)"
proof -
  have "0 \<le> (\<Sum>i = nat startI..<length (points path) - 1.
            distance (points path ! i) (points path ! (i + 1)))"
    by (intro sum_nonneg) (simp add: distance_nonneg)
  then have "d \<noteq> 0" using assms(4) by linarith
  moreover have "nat startI < length (points path)" using assms by linarith
  ultimately show ?thesis
    using assms walkPath_past_end[of "points path" "nat startI" d]
    by (auto simp: interpolatePosition_def Let_def)
qed

lemma placeLoop_spec:
  assumes tot: "\<And>d. \<exists>pos. interpolatePosition path startI d = Inr pos"
  shows "\<exists>pls. placeLoop m path startI label cur acc = Inr (acc @ pls)
           \<and> length pls = length label
           \<and> (\<forall>k < length label.
                 pl_char (pls ! k) = label ! k \<and> pl_width (pls ! k) = m (label ! k)
                 \<and> interpolatePosition path startI
                      (cur + sum_list (map m (take k label)) + m (label ! k) / 2)
                    = Inr \<lparr>pos_x = pl_x (pls ! k), pos_y = pl_y (pls ! k),
                           pos_angle = pl_angle (pls ! k)\<rparr>)"
proof (induction label arbitrary: cur acc)
  case Nil
  show ?case by simp
next
  case (Cons c rest)
  obtain pos where pos: "interpolatePosition path startI (cur + m c / 2) = Inr pos"
    using tot by blast
  define p where "p = \<lparr>pl_char = c, pl_x = pos_x pos, pl_y = pos_y pos,
                        pl_angle = pos_angle pos, pl_width = m c\<rparr>"
  from Cons.IH[of "cur + m c" "acc @ [p]"] obtain pls where
    run: "placeLoop m path startI rest (cur + m c) (acc @ [p]) = Inr ((acc @ [p]) @ pls)"
    and len: "length pls = length rest"
    and each: "\<forall>k < length rest.
                 pl_char (pls ! k) = rest ! k \<and> pl_width (pls ! k) = m (rest ! k)
                 \<and> interpolatePosition path startI
                      (cur + m c + sum_list (map m (take k rest)) + m (rest ! k) / 2)
                    = Inr \<lparr>pos_x = pl_x (pls ! k), pos_y = pl_y (pls ! k),
                           pos_angle = pl_angle (pls ! k)\<rparr>"
    by blast
  have r: "placeLoop m path startI (c # rest) cur acc = Inr (acc @ (p # pls))"
    using pos run by (simp add: Let_def p_def)
  have e: "\<forall>k < length (c # rest).
                 pl_char ((p # pls) ! k) = (c # rest) ! k \<and> pl_width ((p # pls) ! k) = m ((c # rest) ! k)
                 \<and> interpolatePosition path startI
                      (cur + sum_list (map m (take k (c # rest))) + m ((c # rest) ! k) / 2)
                    = Inr \<lparr>pos_x = pl_x ((p # pls) ! k), pos_y = pl_y ((p # pls) ! k),
                           pos_angle = pl_angle ((p # pls) ! k)\<rparr>"
  proof (intro allI impI)
    fix k assume k: "k < length (c # rest)"
    show "pl_char ((p # pls) ! k) = (c # rest) ! k \<and> pl_width ((p # pls) ! k) = m ((c # rest) ! k)
                 \<and> interpolatePosition path startI
                      (cur + sum_list (map m (take k (c # rest))) + m ((c # rest) ! k) / 2)
                    = Inr \<lparr>pos_x = pl_x ((p # pls) ! k), pos_y = pl_y ((p # pls) ! k),
                           pos_angle = pl_angle ((p # pls) ! k)\<rparr>"
    proof (cases k)
      case 0
      then show ?thesis using pos by (simp add: p_def)
    next
      case (Suc j)
      then have "j < length rest" using k by simp
      with each Suc show ?thesis by (simp add: add.assoc)
    qed
  qed
  show ?case
    using r len e by (intro exI[of _ "p # pls"]) simp
qed


text \<open>
  Claim C9, as amended. The empty label yields the empty placement list, whatever the
  path and the start index. For a non-empty label: a path with no points fails with
  'Invalid path', and a start index outside \<open>[0, pointCount - 1]\<close> fails with
  'Invalid startIdx'; on a path of at least two points with a start index in range,
  \<open>placeText\<close> returns exactly one placement per character, in label order, and every
  character whose target distance (the widths of the characters before it plus half its
  own) exceeds the arclength from the start index to the end of the path is placed at
  the final point, with the direction of the last segment.
\<close>

theorem placeText_behaviour:
  "placeText measureCtx [] path startI fontSize = Inr []
   \<and> (label \<noteq> [] \<and> points path = []
        \<longrightarrow> placeText measureCtx label path startI fontSize = Inl InvalidPathNoPoints)
   \<and> (label \<noteq> [] \<and> points path \<noteq> [] \<and> (startI < 0 \<or> int (length (points path)) \<le> startI)
        \<longrightarrow> placeText measureCtx label path startI fontSize
              = Inl (InvalidStartIdx startI (length (points path))))
   \<and> (label \<noteq> [] \<and> 2 \<le> length (points path) \<and> 0 \<le> startI \<and> startI < int (length (points path))
        \<longrightarrow> (\<exists>pls. placeText measureCtx label path startI fontSize = Inr pls
               \<and> map pl_char pls = label
               \<and> (\<forall>k < length label.
                     (\<Sum>i = nat startI..<length (points path) - 1.
                         distance (points path ! i) (points path ! (i + 1)))
                       < sum_list (map (getMeasureContext measureCtx fontSize) (take k label))
                         + getMeasureContext measureCtx fontSize (label ! k) / 2
                     \<longrightarrow> pl_x (pls ! k) = Some (px (last (points path)))
                         \<and> pl_y (pls ! k) = Some (py (last (points path)))
                         \<and> pl_angle (pls ! k)
                             = atan2 (py (last (points path))
                                        - py (points path ! (length (points path) - 2)))
                                     (px (last (points path))
                                        - px (points path ! (length (points path) - 2))))))"
proof (intro conjI impI)
  show "placeText measureCtx [] path startI fontSize = Inr []"
    by (simp add: placeText_def)
next
  assume "label \<noteq> [] \<and> points path = []"
  then show "placeText measureCtx label path startI fontSize = Inl InvalidPathNoPoints"
    by (simp add: placeText_def)
next
  assume "label \<noteq> [] \<and> points path \<noteq> [] \<and> (startI < 0 \<or> int (length (points path)) \<le> startI)"
  then show "placeText measureCtx label path startI fontSize
              = Inl (InvalidStartIdx startI (length (points path)))"
    by (auto simp: placeText_def)
next
  let ?m = "getMeasureContext measureCtx fontSize"
  let ?ps = "points path"
  assume a: "label \<noteq> [] \<and> 2 \<le> length ?ps \<and> 0 \<le> startI \<and> startI < int (length ?ps)"
  then have n2: "2 \<le> length ?ps" and lo: "0 \<le> startI" and hi: "startI < int (length ?ps)"
    by simp_all
  have tot: "\<And>d. \<exists>pos. interpolatePosition path startI d = Inr pos"
    using interpolatePosition_total[OF n2 lo hi] .
  from placeLoop_spec[OF tot, of ?m label 0 "[]"] obtain pls where
    run: "placeLoop ?m path startI label 0 [] = Inr pls"
    and len: "length pls = length label"
    and each: "\<forall>k < length label.
                 pl_char (pls ! k) = label ! k \<and> pl_width (pls ! k) = ?m (label ! k)
                 \<and> interpolatePosition path startI
                      (0 + sum_list (map ?m (take k label)) + ?m (label ! k) / 2)
                    = Inr \<lparr>pos_x = pl_x (pls ! k), pos_y = pl_y (pls ! k),
                           pos_angle = pl_angle (pls ! k)\<rparr>"
    by auto
  have res: "placeText measureCtx label path startI fontSize = Inr pls"
    using a run by (auto simp: placeText_def)
  have chars: "map pl_char pls = label"
    using len each by (intro nth_equalityI) simp_all
  have lastp: "last ?ps = ?ps ! (length ?ps - 1)"
    using n2 by (intro last_conv_nth) auto
  have clamp: "\<forall>k < length label.
                 (\<Sum>i = nat startI..<length ?ps - 1. distance (?ps ! i) (?ps ! (i + 1)))
                   < sum_list (map ?m (take k label)) + ?m (label ! k) / 2
                 \<longrightarrow> pl_x (pls ! k) = Some (px (last ?ps))
                     \<and> pl_y (pls ! k) = Some (py (last ?ps))
                     \<and> pl_angle (pls ! k)
                         = atan2 (py (last ?ps) - py (?ps ! (length ?ps - 2)))
                                 (px (last ?ps) - px (?ps ! (length ?ps - 2)))"
  proof (intro allI impI)
    fix k
    assume k: "k < length label"
      and far: "(\<Sum>i = nat startI..<length ?ps - 1. distance (?ps ! i) (?ps ! (i + 1)))
                   < sum_list (map ?m (take k label)) + ?m (label ! k) / 2"
    have "interpolatePosition path startI (sum_list (map ?m (take k label)) + ?m (label ! k) / 2)
            = atPoint ?ps (length ?ps - 1)"
      using interpolatePosition_past_end[OF n2 lo hi far] .
    moreover have "interpolatePosition path startI
                     (sum_list (map ?m (take k label)) + ?m (label ! k) / 2)
                    = Inr \<lparr>pos_x = pl_x (pls ! k), pos_y = pl_y (pls ! k),
                           pos_angle = pl_angle (pls ! k)\<rparr>"
      using each k by simp
    ultimately show "pl_x (pls ! k) = Some (px (last ?ps))
                     \<and> pl_y (pls ! k) = Some (py (last ?ps))
                     \<and> pl_angle (pls ! k)
                         = atan2 (py (last ?ps) - py (?ps ! (length ?ps - 2)))
                                 (px (last ?ps) - px (?ps ! (length ?ps - 2)))"
      using atPoint_last[OF n2] lastp by simp
  qed
  show "\<exists>pls. placeText measureCtx label path startI fontSize = Inr pls
               \<and> map pl_char pls = label
               \<and> (\<forall>k < length label.
                     (\<Sum>i = nat startI..<length ?ps - 1. distance (?ps ! i) (?ps ! (i + 1)))
                       < sum_list (map ?m (take k label)) + ?m (label ! k) / 2
                     \<longrightarrow> pl_x (pls ! k) = Some (px (last ?ps))
                         \<and> pl_y (pls ! k) = Some (py (last ?ps))
                         \<and> pl_angle (pls ! k)
                             = atan2 (py (last ?ps) - py (?ps ! (length ?ps - 2)))
                                     (px (last ?ps) - px (?ps ! (length ?ps - 2))))"
    using res chars clamp by blast
qed

text \<open>
  Claim C9 as stated fails in two ways. The empty label is answered before the path and
  the start index are validated, so with a path of no points, or with a start index out
  of range, it yields the empty list and no error. And on a path of a single point a
  non-empty label yields no placements: the walk looks for the segment that reaches the
  last point, there is none, and the read raises.
\<close>

theorem placeText_counterexample:
  "placeText None '''' noPointPath 0 16 = Inr []
   \<and> placeText None '''' twoPointPath 7 16 = Inr []
   \<and> placeText None ''A'' onePointPath 0 16 = Inl TypeError"
  by (simp add: placeText_def noPointPath_def onePointPath_def twoPointPath_def
      getMeasureContext_def interpolatePosition_def Let_def walkPath.simps atPoint_def elemAt_def)

text \<open>
  Instances of the amended claim C9: a label of two characters on a path of length 10,
  the second character clamped to the final point; and the two errors.
\<close>

theorem placeText_behaviour_witness:
  "''AB'' \<noteq> [] \<and> 2 \<le> length (points twoPointPath)
   \<and> map pl_char (projr (placeText None ''AB'' twoPointPath 0 16)) = ''AB''
   \<and> pl_x (projr (placeText None ''AB'' twoPointPath 0 16) ! 1) = Some 10
   \<and> ''A'' \<noteq> [] \<and> points noPointPath = []
   \<and> placeText None ''A'' noPointPath 0 16 = Inl InvalidPathNoPoints
   \<and> points twoPointPath \<noteq> [] \<and> int (length (points twoPointPath)) \<le> 5
   \<and> placeText None ''A'' twoPointPath 5 16 = Inl (InvalidStartIdx 5 2)"
proof -
  have p2: "points twoPointPath = [\<lparr>px = 0, py = 0\<rparr>, \<lparr>px = 10, py = 0\<rparr>]"
    by (simp add: twoPointPath_def)
  have p0: "points noPointPath = []"
    by (simp add: noPointPath_def)
  have far: "(\<Sum>i = nat 0..<length (points twoPointPath) - 1.
                 distance (points twoPointPath ! i) (points twoPointPath ! (i + 1)))
             < sum_list (map (getMeasureContext None 16) (take 1 ''AB''))
               + getMeasureContext None 16 (''AB'' ! 1) / 2"
    by (simp add: p2 distance_def getMeasureContext_def)
  from placeText_behaviour[of None twoPointPath 0 16 "''AB''"] obtain pls where
    pls: "placeText None ''AB'' twoPointPath 0 16 = Inr pls" "map pl_char pls = ''AB''"
      and cl: "\<forall>k < length ''AB''.
                 (\<Sum>i = nat 0..<length (points twoPointPath) - 1.
                     distance (points twoPointPath ! i) (points twoPointPath ! (i + 1)))
                   < sum_list (map (getMeasureContext None 16) (take k ''AB''))
                     + getMeasureContext None 16 (''AB'' ! k) / 2
                 \<longrightarrow> pl_x (pls ! k) = Some (px (last (points twoPointPath)))"
    by (auto simp: p2)
  have "pl_x (pls ! 1) = Some (px (last (points twoPointPath)))"
    using cl far by auto
  then have x1: "pl_x (pls ! 1) = Some 10" by (simp add: p2)
  have e1: "placeText None ''A'' noPointPath 0 16 = Inl InvalidPathNoPoints"
    using placeText_behaviour[of None noPointPath 0 16 "''A''"] p0 by simp
  have e2: "placeText None ''A'' twoPointPath 5 16 = Inl (InvalidStartIdx 5 2)"
    using placeText_behaviour[of None twoPointPath 5 16 "''A''"] p2 by simp
  show ?thesis
    using pls x1 e1 e2 p0 p2 by simp
qed

section \<open>Parsing and analysis of the straight paths\<close>

lemma length_line: "length (linePoints n step) = n"
  by (simp add: linePoints_def)

lemma nth_line: "i < n \<Longrightarrow> linePoints n step ! i = \<lparr>px = step * real i, py = 0\<rparr>"
  by (simp add: linePoints_def)

lemma dist_line:
  assumes "Suc i < n" "0 \<le> step"
  shows "distance (linePoints n step ! i) (linePoints n step ! Suc i) = step"
    and "distance (linePoints n step ! Suc i) (linePoints n step ! i) = step"
proof -
  have "step * (1 + real i) - step * real i = step" by (simp add: algebra_simps)
  then show "distance (linePoints n step ! i) (linePoints n step ! Suc i) = step"
    using assms by (simp add: distance_def nth_line)
  have "step * real i - step * (1 + real i) = - step" by (simp add: algebra_simps)
  then show "distance (linePoints n step ! Suc i) (linePoints n step ! i) = step"
    using assms by (simp add: distance_def nth_line)
qed

lemma raw_line:
  assumes "1 \<le> i" "Suc i < n" "0 < step"
  shows "rawCurvature (linePoints n step) i = 0"
proof -
  have a: "step * real i - step * real (i - 1) = step"
    using assms(1) by (simp add: algebra_simps of_nat_diff)
  have b: "step * real (i + 1) - step * real i = step"
    by (simp add: algebra_simps)
  have "i - 1 < n" "i < n" "i + 1 < n" using assms by simp_all
  then show ?thesis
    using assms(3) a b
    by (simp add: rawCurvature_def nth_line Let_def del: of_nat_Suc of_nat_add)
qed

lemma line6: "linePoints 6 10 =
     [\<lparr>px = 0, py = 0\<rparr>, \<lparr>px = 10, py = 0\<rparr>, \<lparr>px = 20, py = 0\<rparr>,
      \<lparr>px = 30, py = 0\<rparr>, \<lparr>px = 40, py = 0\<rparr>, \<lparr>px = 50, py = 0\<rparr>]"
  by (simp add: linePoints_def upt_rec)

lemma line5: "linePoints 5 100 =
     [\<lparr>px = 0, py = 0\<rparr>, \<lparr>px = 100, py = 0\<rparr>, \<lparr>px = 200, py = 0\<rparr>,
      \<lparr>px = 300, py = 0\<rparr>, \<lparr>px = 400, py = 0\<rparr>]"
  by (simp add: linePoints_def upt_rec)

lemma buildPath_straight: "buildPath straightCoords = Inr straightPath"
  by (simp add: buildPath_def validate_def straightCoords_def straightPath_def line6
      Let_def totalLength_def boundingBox_def upt_rec)

lemma buildPath_sparse: "buildPath sparseCoords = Inr sparsePath"
  by (simp add: buildPath_def validate_def sparseCoords_def sparsePath_def line5
      Let_def totalLength_def boundingBox_def upt_rec)

lemma curvature_line6:
  "points path = linePoints 6 10 \<Longrightarrow> calculateCurvature path = [0, 0, 0, 0, 0, 0]"
  by (simp add: calculateCurvature_def rawCurvatures_def length_line raw_line Let_def upt_rec)

lemma curvature_line5:
  "points path = linePoints 5 100 \<Longrightarrow> calculateCurvature path = [0, 0, 0, 0, 0]"
  by (simp add: calculateCurvature_def rawCurvatures_def length_line raw_line Let_def upt_rec)

lemma calcSeg_step:
  assumes "points path = linePoints n step" "Suc i < n" "0 \<le> step"
  shows "calculateSegmentLength path (int i) (int (Suc i)) = Inr step"
proof -
  have "elemAt (linePoints n step) (int i) = Some (linePoints n step ! i)"
    "elemAt (linePoints n step) (int i + 1) = Some (linePoints n step ! Suc i)"
    using assms(2) by (simp_all add: elemAt_def length_line nat_add_distrib)
  then show ?thesis
    using assms dist_line(1)[OF assms(2,3)]
    by (simp add: calculateSegmentLength_def calcSegLoop.simps[of _ "int i"]
        calcSegLoop.simps[of _ "1 + int i"] add.commute)
qed

lemma edges_line6:
  assumes p: "points path = linePoints 6 10" "path_length path = 50"
  shows "getEdgeSections path =
     Inr \<lparr>edgeStart = \<lparr>startIdx = 0, endIdx = 1, seg_length = 10, reason = Some EdgeSection\<rparr>,
          edgeEnd = \<lparr>startIdx = 4, endIdx = 5, seg_length = 10, reason = Some EdgeSection\<rparr>\<rparr>"
proof -
  have s: "edgeStartLoop (linePoints 6 10) 5 0 0 = 1"
    by (simp add: edgeStartLoop.simps length_line dist_line Let_def)
  have e: "edgeEndLoop (linePoints 6 10) 5 5 0 5 = 4"
    using edgeEndLoop.simps(2)[of "linePoints 6 10" 5 4 0 5] dist_line(2)[of 4 6 10]
    by (simp add: Let_def)
  have c1: "calculateSegmentLength path 0 1 = Inr 10"
    using calcSeg_step[OF p(1), of 0] by simp
  have c2: "calculateSegmentLength path 4 5 = Inr 10"
    using calcSeg_step[OF p(1), of 4] by simp
  show ?thesis
    using c1 c2 by (simp add: getEdgeSections_def Let_def p length_line s e)
qed

lemma edges_line5:
  assumes p: "points path = linePoints 5 100" "path_length path = 400"
  shows "getEdgeSections path =
     Inr \<lparr>edgeStart = \<lparr>startIdx = 0, endIdx = 1, seg_length = 100, reason = Some EdgeSection\<rparr>,
          edgeEnd = \<lparr>startIdx = 3, endIdx = 4, seg_length = 100, reason = Some EdgeSection\<rparr>\<rparr>"
proof -
  have s: "edgeStartLoop (linePoints 5 100) 40 0 0 = 1"
    by (simp add: edgeStartLoop.simps length_line dist_line Let_def)
  have e: "edgeEndLoop (linePoints 5 100) 40 4 0 4 = 3"
    using edgeEndLoop.simps(2)[of "linePoints 5 100" 40 3 0 4] dist_line(2)[of 3 5 100]
    by (simp add: Let_def)
  have c1: "calculateSegmentLength path 0 1 = Inr 100"
    using calcSeg_step[OF p(1), of 0] by simp
  have c2: "calculateSegmentLength path 3 4 = Inr 100"
    using calcSeg_step[OF p(1), of 3] by simp
  show ?thesis
    using c1 c2 by (simp add: getEdgeSections_def Let_def p length_line s e)
qed

lemma analyze_straight: "analyzeGeometry straightPath = Inr straightMetrics"
proof -
  have p: "points straightPath = linePoints 6 10" "path_length straightPath = 50"
    "widths straightPath = None"
    by (simp_all add: straightPath_def)
  have "findSharpCurves straightPath 30 = Inr []"
    by (simp add: findSharpCurves_def curvature_line6[OF p(1)] findRuns_def Let_def p length_line)
  then show ?thesis
    using edges_line6[OF p(1,2)] curvature_line6[OF p(1)] p(3)
    by (simp add: analyzeGeometry_def Let_def straightMetrics_def)
qed

lemma analyze_sparse: "analyzeGeometry sparsePath = Inr sparseMetrics"
proof -
  have p: "points sparsePath = linePoints 5 100" "path_length sparsePath = 400"
    "widths sparsePath = None"
    by (simp_all add: sparsePath_def)
  have "findSharpCurves sparsePath 30 = Inr []"
    by (simp add: findSharpCurves_def curvature_line5[OF p(1)] findRuns_def Let_def p length_line)
  then show ?thesis
    using edges_line5[OF p(1,2)] curvature_line5[OF p(1)] p(3)
    by (simp add: analyzeGeometry_def Let_def sparseMetrics_def)
qed

lemma rejected_straight: "rejectedIndices straightMetrics = {0, 1, 4, 5}"
  by (auto simp: rejectedIndices_def segmentIndices_def straightMetrics_def)

lemma rejected_sparse: "rejectedIndices sparseMetrics = {0, 1, 3, 4}"
  by (auto simp: rejectedIndices_def segmentIndices_def sparseMetrics_def)

lemma extend_straight:
  assumes p: "points path = linePoints 6 10" and r: "rejectedIndices metrics = {0, 1, 4, 5}"
    and t: "t \<le> 10"
  shows "findCandidates path t metrics = [makeCandidate path metrics 2 3 10]"
  using t
  by (simp add: findCandidates_def p length_line r upt_rec extendLoop.simps dist_line Let_def)
     (simp add: numeral_2_eq_2 numeral_3_eq_3)

lemma findCandidates_straight:
  "findCandidates straightPath 5 straightMetrics = [makeCandidate straightPath straightMetrics 2 3 10]"
  by (rule extend_straight) (simp_all add: straightPath_def rejected_straight)

section \<open>Candidate enumeration\<close>

lemma segment_makeCandidate:
  "segment (makeCandidate path metrics s e len)
     = \<lparr>startIdx = int s, endIdx = int e, seg_length = len, reason = None\<rparr>"
  by (simp add: makeCandidate_def)

lemma extendLoop_fits:
  "\<forall>c\<in>set candidates. fitsWindow path textLen metrics c
   \<Longrightarrow> s < e \<Longrightarrow> int s \<notin> rejectedIndices metrics
   \<Longrightarrow> \<forall>i. s < i \<and> i < e \<longrightarrow> int i \<notin> rejectedIndices metrics
   \<Longrightarrow> segmentLength = arcLength (points path) s (e - 1)
   \<Longrightarrow> \<forall>c\<in>set (extendLoop path textLen metrics s e segmentLength candidates).
         fitsWindow path textLen metrics c"
proof (induction path textLen metrics s e segmentLength candidates rule: extendLoop.induct)
  case (1 path textLen metrics s e segmentLength candidates)
  let ?rej = "rejectedIndices metrics"
  let ?len' = "segmentLength + distance (points path ! (e - 1)) (points path ! e)"
  show ?case
  proof (cases "e < length (points path) \<and> int e \<notin> ?rej
                \<and> \<not> list_ex (\<lambda>i. int i \<in> ?rej) [s + 1..<e]")
    case False
    then show ?thesis
      using "1.prems"(1) by (subst extendLoop.simps) (auto simp: Let_def)
  next
    case True
    then have en: "e < length (points path)" and erej: "int e \<notin> ?rej"
      and nohit: "\<not> list_ex (\<lambda>i. int i \<in> ?rej) [s + 1..<e]"
      by simp_all
    have len': "?len' = arcLength (points path) s e"
    proof -
      have "{s..<e} = insert (e - 1) {s..<e - 1}" using "1.prems"(2) by auto
      then have "arcLength (points path) s e
                 = distance (points path ! (e - 1)) (points path ! (e - 1 + 1))
                   + arcLength (points path) s (e - 1)"
        by simp
      then show ?thesis using "1.prems"(2,5) by simp
    qed
    have free: "\<forall>i. int s \<le> i \<and> i \<le> int e \<longrightarrow> i \<notin> ?rej"
    proof (intro allI impI)
      fix i :: int assume i: "int s \<le> i \<and> i \<le> int e"
      define k where "k = nat i"
      have k: "i = int k" "s \<le> k" "k \<le> e"
        using i unfolding k_def by linarith+
      then consider "k = s" | "s < k \<and> k < e" | "k = e" by linarith
      then show "i \<notin> ?rej"
        using k "1.prems"(3,4) erej by cases auto
    qed
    let ?new = "makeCandidate path metrics s e ?len'"
    let ?cands' = "if ?len' \<ge> textLen then candidates @ [?new] else candidates"
    have newfit: "textLen \<le> ?len' \<Longrightarrow> fitsWindow path textLen metrics ?new"
      using "1.prems"(2) en free len'
      by (simp add: fitsWindow_def segment_makeCandidate)
    have all': "\<forall>c\<in>set ?cands'. fitsWindow path textLen metrics c"
      using "1.prems"(1) newfit by auto
    have nxt: "\<forall>i. s < i \<and> i < e + 1 \<longrightarrow> int i \<notin> ?rej"
      using "1.prems"(4) erej by (auto simp: less_Suc_eq)
    have "\<forall>c\<in>set (extendLoop path textLen metrics s (e + 1) ?len' ?cands').
            fitsWindow path textLen metrics c"
      using "1.IH"[OF en erej refl refl nohit all' _ "1.prems"(3) nxt] "1.prems"(2) len'
      by simp
    then show ?thesis
      using True by (subst extendLoop.simps) (simp add: Let_def)
  qed
qed

lemma findCandidates_fold_fits:
  "\<forall>c\<in>set acc. fitsWindow path textLen metrics c
   \<Longrightarrow> \<forall>c\<in>set (foldl (\<lambda>candidates s.
              if int s \<in> rejectedIndices metrics then candidates
              else extendLoop path textLen metrics s (s + 1) 0 candidates) acc xs).
         fitsWindow path textLen metrics c"
proof (induction xs arbitrary: acc)
  case Nil
  then show ?case by simp
next
  case (Cons s xs)
  show ?case
  proof (cases "int s \<in> rejectedIndices metrics")
    case True
    then show ?thesis using Cons.IH[OF Cons.prems] by simp
  next
    case False
    have "\<forall>c\<in>set (extendLoop path textLen metrics s (s + 1) 0 acc).
            fitsWindow path textLen metrics c"
      using Cons.prems False by (intro extendLoop_fits) auto
    from Cons.IH[OF this] show ?thesis using False by simp
  qed
qed

text \<open>
  Claim C1. Every candidate that \<open>findCandidates\<close> emits, for any path, metrics and text
  length, has a window \<open>[startIdx, endIdx]\<close> inside the path that contains no index of
  the rejected set (the indices of the sharp-curve regions, of the narrow-section regions
  and of the two edge regions); its recorded length is the accumulated segment length of
  that window, and it is at least the text length.
\<close>

theorem findCandidates_windows:
  "\<forall>c\<in>set (findCandidates path textLen metrics).
     0 \<le> startIdx (segment c) \<and> startIdx (segment c) < endIdx (segment c)
     \<and> endIdx (segment c) < int (length (points path))
     \<and> (\<forall>i. startIdx (segment c) \<le> i \<and> i \<le> endIdx (segment c) \<longrightarrow> i \<notin> rejectedIndices metrics)
     \<and> seg_length (segment c)
         = (\<Sum>i = nat (startIdx (segment c))..<nat (endIdx (segment c)).
              distance (points path ! i) (points path ! (i + 1)))
     \<and> textLen \<le> seg_length (segment c)"
proof -
  have "\<forall>c\<in>set (findCandidates path textLen metrics). fitsWindow path textLen metrics c"
    unfolding findCandidates_def by (rule findCandidates_fold_fits) simp
  then show ?thesis
    unfolding fitsWindow_def by blast
qed

text \<open>
  An instance of claim C1: on the straight path of six points, with the metrics of its
  analysis and a text length of 5, the window from index 2 to index 3 is emitted.
\<close>

theorem findCandidates_windows_witness:
  "makeCandidate straightPath straightMetrics 2 3 10
     \<in> set (findCandidates straightPath 5 straightMetrics)
   \<and> (2::int) \<notin> rejectedIndices straightMetrics
   \<and> (3::int) \<notin> rejectedIndices straightMetrics
   \<and> (5::real) \<le> seg_length (segment (makeCandidate straightPath straightMetrics 2 3 10))"
proof -
  have mem: "makeCandidate straightPath straightMetrics 2 3 10
               \<in> set (findCandidates straightPath 5 straightMetrics)"
    by (simp add: findCandidates_straight)
  from findCandidates_windows[of straightPath 5 straightMetrics, THEN bspec, OF mem]
  have free: "\<forall>i. 2 \<le> i \<and> i \<le> 3 \<longrightarrow> i \<notin> rejectedIndices straightMetrics"
    and len: "5 \<le> seg_length (segment (makeCandidate straightPath straightMetrics 2 3 10))"
    by (simp_all add: segment_makeCandidate)
  from free have "(2::int) \<notin> rejectedIndices straightMetrics"
    "(3::int) \<notin> rejectedIndices straightMetrics"
    by simp_all
  with mem len show ?thesis by simp
qed

section \<open>The fallback of the placement search\<close>

lemma arcLength_nonneg: "0 \<le> arcLength ps a b"
  by (intro sum_nonneg) (simp add: distance_def)

lemma arcLength_split:
  "a \<le> b \<Longrightarrow> b \<le> c \<Longrightarrow> arcLength ps a c = arcLength ps a b + arcLength ps b c"
  by (simp add: sum.atLeastLessThan_concat)

lemma arcLength_mono:
  assumes "a' \<le> a" "a \<le> b" "b \<le> b'"
  shows "arcLength ps a b \<le> arcLength ps a' b'"
proof -
  have "arcLength ps a' b' = arcLength ps a' a + arcLength ps a b + arcLength ps b b'"
    using assms arcLength_split[of a' a b' ps] arcLength_split[of a b b' ps] by simp
  then show ?thesis
    using arcLength_nonneg[of ps a' a] arcLength_nonneg[of ps b b'] by linarith
qed

lemma runLoop_spec:
  "1 \<le> i \<Longrightarrow> e = i - 1 \<Longrightarrow> i \<le> length (points path)
   \<Longrightarrow> \<exists>E. runLoop path metrics i len e = (len + arcLength (points path) (i - 1) E, E)
         \<and> i - 1 \<le> E \<and> E < length (points path)
         \<and> (\<forall>j. i \<le> j \<and> j \<le> E \<longrightarrow> int j \<notin> rejectedIndices metrics)
         \<and> (E + 1 < length (points path) \<longrightarrow> int (E + 1) \<in> rejectedIndices metrics)"
proof (induction path metrics i len e rule: runLoop.induct)
  case (1 path metrics i segmentLength e)
  let ?ps = "points path"
  show ?case
  proof (cases "i < length ?ps")
    case False
    then have "i = length ?ps" using "1.prems"(3) by simp
    then show ?thesis
      using "1.prems" by (subst runLoop.simps) (auto intro!: exI[of _ "i - 1"])
  next
    case True
    show ?thesis
    proof (cases "int i \<in> rejectedIndices metrics")
      case T2: True
      then show ?thesis
        using True "1.prems" by (subst runLoop.simps) (auto intro!: exI[of _ "i - 1"])
    next
      case F2: False
      from "1.IH"[OF True F2] "1.prems" True obtain E where
        run: "runLoop path metrics (i + 1) (segmentLength + distance (?ps ! (i - 1)) (?ps ! i)) i
                = (segmentLength + distance (?ps ! (i - 1)) (?ps ! i) + arcLength ?ps i E, E)"
        and E: "i \<le> E" "E < length ?ps"
        and free: "\<forall>j. i + 1 \<le> j \<and> j \<le> E \<longrightarrow> int j \<notin> rejectedIndices metrics"
        and stop: "E + 1 < length ?ps \<longrightarrow> int (E + 1) \<in> rejectedIndices metrics"
        by auto
      have "{i - 1..<i} = {i - 1}" using "1.prems"(1) by auto
      then have "arcLength ?ps (i - 1) i = distance (?ps ! (i - 1)) (?ps ! i)"
        using "1.prems"(1) by simp
      then have "arcLength ?ps (i - 1) E = distance (?ps ! (i - 1)) (?ps ! i) + arcLength ?ps i E"
        using E(1) "1.prems"(1) arcLength_split[of "i - 1" i E ?ps] by simp
      moreover have "\<forall>j. i \<le> j \<and> j \<le> E \<longrightarrow> int j \<notin> rejectedIndices metrics"
        using free F2 by (metis Suc_eq_plus1 Suc_leI le_neq_implies_less)
      ultimately show ?thesis
        using True F2 run E stop
        by (subst runLoop.simps) (auto intro!: exI[of _ E])
    qed
  qed
qed

lemma validLoop_spec:
  "\<forall>c\<in>set segs. runCandidate path metrics c
   \<Longrightarrow> (\<forall>c\<in>set (validLoop path metrics s segs). runCandidate path metrics c)
       \<and> set segs \<subseteq> set (validLoop path metrics s segs)
       \<and> coversRuns path metrics s (validLoop path metrics s segs)"
proof (induction path metrics s segs rule: validLoop.induct)
  case (1 path metrics s segments)
  let ?ps = "points path"
  let ?rej = "rejectedIndices metrics"
  show ?case
  proof (cases "s + 1 < length ?ps")
    case False
    have "coversRuns path metrics s segments"
      using False by (auto simp: coversRuns_def freeRun_def)
    then show ?thesis
      using False "1.prems" by (subst (1 2 3) validLoop.simps) simp
  next
    case inb: True
    show ?thesis
    proof (cases "int s \<in> ?rej")
      case True
      from "1.IH"(1)[OF inb True "1.prems"]
      have ih: "\<forall>c\<in>set (validLoop path metrics (s + 1) segments). runCandidate path metrics c"
        "set segments \<subseteq> set (validLoop path metrics (s + 1) segments)"
        "coversRuns path metrics (s + 1) (validLoop path metrics (s + 1) segments)"
        by simp_all
      have "coversRuns path metrics s (validLoop path metrics (s + 1) segments)"
        unfolding coversRuns_def
      proof (intro allI impI)
        fix a b
        assume ab: "s \<le> a \<and> a < b \<and> freeRun path metrics a b \<and> 0 < arcLength ?ps a b"
        then have "int a \<notin> ?rej" by (auto simp: freeRun_def)
        with True have "a \<noteq> s" by auto
        with ab have "s + 1 \<le> a" by simp
        with ab ih(3) show "\<exists>c\<in>set (validLoop path metrics (s + 1) segments).
                               arcLength ?ps a b \<le> seg_length (segment c)"
          unfolding coversRuns_def by blast
      qed
      moreover have "validLoop path metrics s segments = validLoop path metrics (s + 1) segments"
        using inb True by (subst validLoop.simps) simp
      ultimately show ?thesis using ih by simp
    next
      case free_s: False
      define r where "r = runLoop path metrics (s + 1) 0 s"
      obtain E where rE: "r = (arcLength ?ps s E, E)" and E: "s \<le> E" "E < length ?ps"
        and freeE: "\<forall>j. s + 1 \<le> j \<and> j \<le> E \<longrightarrow> int j \<notin> ?rej"
        and stop: "E + 1 < length ?ps \<longrightarrow> int (E + 1) \<in> ?rej"
        using runLoop_spec[of "s + 1" s path metrics 0] inb unfolding r_def by auto
      have rr: "runLoop path metrics (Suc s) 0 s = (arcLength ?ps s E, E)"
        using rE unfolding r_def by simp
      have runsE: "freeRun path metrics s E"
        using E freeE free_s unfolding freeRun_def
        by (metis Suc_eq_plus1 Suc_leI le_neq_implies_less)
      have within: "\<And>a b. s \<le> a \<Longrightarrow> a \<le> E \<Longrightarrow> freeRun path metrics a b \<Longrightarrow> b \<le> E"
      proof (rule ccontr)
        fix a b
        assume a: "s \<le> a" "a \<le> E" and run: "freeRun path metrics a b" and "\<not> b \<le> E"
        then have "E + 1 \<le> b" by simp
        have "a \<le> E + 1" using a by simp
        with \<open>E + 1 \<le> b\<close> run have "int (E + 1) \<notin> ?rej"
          unfolding freeRun_def by blast
        moreover have "E + 1 < length ?ps"
          using \<open>E + 1 \<le> b\<close> run unfolding freeRun_def by linarith
        ultimately show False using stop by blast
      qed
      show ?thesis
      proof (cases "0 < fst r \<and> s < snd r")
        case push: True
        let ?new = "makeCandidate path metrics s E (arcLength ?ps s E)"
        have new: "runCandidate path metrics ?new"
          unfolding runCandidate_def using push rE runsE by auto
        then have all: "\<forall>c\<in>set (segments @ [?new]). runCandidate path metrics c"
          using "1.prems" by simp
        from "1.IH"(2)[OF inb free_s r_def push] all rE
        have ih: "\<forall>c\<in>set (validLoop path metrics (E + 1) (segments @ [?new])).
                    runCandidate path metrics c"
          "set (segments @ [?new]) \<subseteq> set (validLoop path metrics (E + 1) (segments @ [?new]))"
          "coversRuns path metrics (E + 1) (validLoop path metrics (E + 1) (segments @ [?new]))"
          by simp_all
        have eq: "validLoop path metrics s segments
                  = validLoop path metrics (E + 1) (segments @ [?new])"
          using inb free_s push rE by (subst validLoop.simps) (simp add: rr Let_def)
        have "coversRuns path metrics s (validLoop path metrics (E + 1) (segments @ [?new]))"
          unfolding coversRuns_def
        proof (intro allI impI)
          fix a b
          assume ab: "s \<le> a \<and> a < b \<and> freeRun path metrics a b \<and> 0 < arcLength ?ps a b"
          show "\<exists>c\<in>set (validLoop path metrics (E + 1) (segments @ [?new])).
                   arcLength ?ps a b \<le> seg_length (segment c)"
          proof (cases "a \<le> E")
            case True
            with ab within have "b \<le> E" by blast
            then have "arcLength ?ps a b \<le> arcLength ?ps s E"
              using ab by (intro arcLength_mono) auto
            moreover have "?new \<in> set (validLoop path metrics (E + 1) (segments @ [?new]))"
              using ih(2) by auto
            ultimately show ?thesis
              by (intro bexI[of _ ?new]) (simp_all add: segment_makeCandidate)
          next
            case False
            then have "E + 1 \<le> a" by simp
            with ab ih(3) show ?thesis unfolding coversRuns_def by blast
          qed
        qed
        then show ?thesis using ih eq by auto
      next
        case nopush: False
        from "1.IH"(3)[OF inb free_s r_def nopush "1.prems"]
        have ih: "\<forall>c\<in>set (validLoop path metrics (s + 1) segments). runCandidate path metrics c"
          "set segments \<subseteq> set (validLoop path metrics (s + 1) segments)"
          "coversRuns path metrics (s + 1) (validLoop path metrics (s + 1) segments)"
          by simp_all
        have eq: "validLoop path metrics s segments = validLoop path metrics (s + 1) segments"
          using inb free_s nopush rE by (subst validLoop.simps) (auto simp: rr Let_def)
        have "coversRuns path metrics s (validLoop path metrics (s + 1) segments)"
          unfolding coversRuns_def
        proof (intro allI impI)
          fix a b
          assume ab: "s \<le> a \<and> a < b \<and> freeRun path metrics a b \<and> 0 < arcLength ?ps a b"
          have "a \<noteq> s"
          proof
            assume "a = s"
            with ab within[of s b] E have bE: "b \<le> E" by simp
            then have "arcLength ?ps a b \<le> arcLength ?ps s E"
              using ab by (intro arcLength_mono) auto
            with ab have "0 < arcLength ?ps s E" by linarith
            moreover have "s < E" using ab bE \<open>a = s\<close> by simp
            ultimately show False using nopush rE by simp
          qed
          with ab have "s + 1 \<le> a" by simp
          with ab ih(3) show "\<exists>c\<in>set (validLoop path metrics (s + 1) segments).
                                 arcLength ?ps a b \<le> seg_length (segment c)"
            unfolding coversRuns_def by blast
        qed
        then show ?thesis using ih eq by simp
      qed
    qed
  qed
qed

lemma longest_fold:
  "seg_length (segment a)
     \<le> seg_length (segment (foldl (\<lambda>longest seg.
              if seg_length (segment seg) > seg_length (segment longest) then seg else longest) a xs))
   \<and> (\<forall>c\<in>set xs. seg_length (segment c)
     \<le> seg_length (segment (foldl (\<lambda>longest seg.
              if seg_length (segment seg) > seg_length (segment longest) then seg else longest) a xs)))
   \<and> foldl (\<lambda>longest seg.
              if seg_length (segment seg) > seg_length (segment longest) then seg else longest) a xs
       \<in> insert a (set xs)"
proof (induction xs arbitrary: a)
  case Nil
  show ?case by simp
next
  case (Cons x xs)
  let ?a' = "if seg_length (segment x) > seg_length (segment a) then x else a"
  from Cons.IH[of ?a'] show ?case
    by (auto split: if_splits)
qed

lemma longestSegment_spec:
  assumes "allSegments \<noteq> []"
  shows "longestSegment allSegments \<in> set allSegments
         \<and> (\<forall>c\<in>set allSegments.
               seg_length (segment c) \<le> seg_length (segment (longestSegment allSegments)))"
proof -
  have "allSegments ! 0 \<in> set allSegments" using assms by simp
  then show ?thesis
    using longest_fold[of "allSegments ! 0" allSegments]
    unfolding longestSegment_def by (auto simp: insert_absorb)
qed

text \<open>
  Claim C4, as amended. Suppose no candidate fits the measured text length. If the path
  has a contiguous non-rejected window of at least two points with positive arclength,
  \<open>findOptimalPlacement\<close> returns a placement that is such a window, whose length is
  the arclength of its window and is at least the arclength of every contiguous
  non-rejected window of the path (so the choice does not depend on the label), with the
  warning that the text exceeds the longest suitable segment, and with the list of the
  runs that the fallback enumeration found as the candidate list. If the path has no
  such window, it returns no placement, the warning that the entire path is problematic,
  and the empty candidate list.
\<close>

theorem findOptimalPlacement_fallback:
  assumes nofit: "findCandidates path (measureTextLength ctx label fontSize fontFamily) metrics = []"
  shows
    "((\<exists>a b. a < b \<and> b < length (points path)
            \<and> (\<forall>j. a \<le> j \<and> j \<le> b \<longrightarrow> int j \<notin> rejectedIndices metrics)
            \<and> 0 < (\<Sum>i = a..<b. distance (points path ! i) (points path ! (i + 1))))
      \<longrightarrow> (\<exists>c. findOptimalPlacement ctx path label fontSize metrics fontFamily
                  = Inr \<lparr>placement = Some c,
                         warning = Some (TextExceedsSegment
                                     (measureTextLength ctx label fontSize fontFamily)
                                     (seg_length (segment c))),
                         allCandidates = findAllValidSegments path metrics,
                         textLength = measureTextLength ctx label fontSize fontFamily\<rparr>
              \<and> c \<in> set (findAllValidSegments path metrics)
              \<and> 0 \<le> startIdx (segment c) \<and> startIdx (segment c) < endIdx (segment c)
              \<and> endIdx (segment c) < int (length (points path))
              \<and> (\<forall>i. startIdx (segment c) \<le> i \<and> i \<le> endIdx (segment c)
                      \<longrightarrow> i \<notin> rejectedIndices metrics)
              \<and> seg_length (segment c)
                  = (\<Sum>i = nat (startIdx (segment c))..<nat (endIdx (segment c)).
                       distance (points path ! i) (points path ! (i + 1)))
              \<and> (\<forall>a b. a \<le> b \<and> b < length (points path)
                        \<and> (\<forall>j. a \<le> j \<and> j \<le> b \<longrightarrow> int j \<notin> rejectedIndices metrics)
                      \<longrightarrow> (\<Sum>i = a..<b. distance (points path ! i) (points path ! (i + 1)))
                            \<le> seg_length (segment c))))
     \<and> (\<not> (\<exists>a b. a < b \<and> b < length (points path)
               \<and> (\<forall>j. a \<le> j \<and> j \<le> b \<longrightarrow> int j \<notin> rejectedIndices metrics)
               \<and> 0 < (\<Sum>i = a..<b. distance (points path ! i) (points path ! (i + 1))))
      \<longrightarrow> findOptimalPlacement ctx path label fontSize metrics fontFamily
            = Inr \<lparr>placement = None, warning = Some EntirePathProblematic,
                   allCandidates = [],
                   textLength = measureTextLength ctx label fontSize fontFamily\<rparr>)"
proof -
  let ?ps = "points path"
  let ?rej = "rejectedIndices metrics"
  let ?all = "findAllValidSegments path metrics"
  let ?len = "measureTextLength ctx label fontSize fontFamily"
  have spec: "\<forall>c\<in>set ?all. runCandidate path metrics c" "coversRuns path metrics 0 ?all"
    using validLoop_spec[of "[]" path metrics 0] by (simp_all add: findAllValidSegments_def)
  show ?thesis
  proof (intro conjI impI)
    assume "\<exists>a b. a < b \<and> b < length ?ps \<and> (\<forall>j. a \<le> j \<and> j \<le> b \<longrightarrow> int j \<notin> ?rej)
                  \<and> 0 < arcLength ?ps a b"
    then obtain a b where ab: "a < b" "freeRun path metrics a b" "0 < arcLength ?ps a b"
      unfolding freeRun_def by auto
    then obtain c0 where "c0 \<in> set ?all"
      using spec(2) unfolding coversRuns_def by blast
    then have ne: "?all \<noteq> []" by auto
    define c where "c = longestSegment ?all"
    have cin: "c \<in> set ?all"
      and cmax: "\<forall>d\<in>set ?all. seg_length (segment d) \<le> seg_length (segment c)"
      using longestSegment_spec[OF ne] unfolding c_def by simp_all
    from cin spec(1) obtain S E where
      SE: "c = makeCandidate path metrics S E (arcLength ?ps S E)" "S < E"
        "freeRun path metrics S E" "0 < arcLength ?ps S E"
      unfolding runCandidate_def by blast
    have seg: "segment c = \<lparr>startIdx = int S, endIdx = int E,
                            seg_length = arcLength ?ps S E, reason = None\<rparr>"
      unfolding SE(1) by (rule segment_makeCandidate)
    have res: "findOptimalPlacement ctx path label fontSize metrics fontFamily
                  = Inr \<lparr>placement = Some c,
                         warning = Some (TextExceedsSegment ?len (seg_length (segment c))),
                         allCandidates = ?all, textLength = ?len\<rparr>"
      using nofit ne by (simp add: findOptimalPlacement_def Let_def c_def)
    have free: "\<forall>i. startIdx (segment c) \<le> i \<and> i \<le> endIdx (segment c) \<longrightarrow> i \<notin> ?rej"
    proof (intro allI impI)
      fix i :: int assume i: "startIdx (segment c) \<le> i \<and> i \<le> endIdx (segment c)"
      define k where "k = nat i"
      have "i = int k" "S \<le> k" "k \<le> E"
        using i unfolding k_def seg by simp_all linarith+
      then show "i \<notin> ?rej" using SE(3) unfolding freeRun_def by blast
    qed
    have best: "\<forall>a b. a \<le> b \<and> b < length ?ps \<and> (\<forall>j. a \<le> j \<and> j \<le> b \<longrightarrow> int j \<notin> ?rej)
                  \<longrightarrow> arcLength ?ps a b \<le> seg_length (segment c)"
    proof (intro allI impI)
      fix a b
      assume r: "a \<le> b \<and> b < length ?ps \<and> (\<forall>j. a \<le> j \<and> j \<le> b \<longrightarrow> int j \<notin> ?rej)"
      then have run: "freeRun path metrics a b" unfolding freeRun_def by simp
      show "arcLength ?ps a b \<le> seg_length (segment c)"
      proof (cases "0 < arcLength ?ps a b")
        case True
        then have "a \<noteq> b" by auto
        with r have "a < b" by simp
        with run True spec(2) obtain d where "d \<in> set ?all"
          "arcLength ?ps a b \<le> seg_length (segment d)"
          unfolding coversRuns_def by blast
        with cmax show ?thesis by fastforce
      next
        case False
        then show ?thesis using SE(4) seg by simp
      qed
    qed
    show "\<exists>c. findOptimalPlacement ctx path label fontSize metrics fontFamily
                  = Inr \<lparr>placement = Some c,
                         warning = Some (TextExceedsSegment ?len (seg_length (segment c))),
                         allCandidates = ?all, textLength = ?len\<rparr>
              \<and> c \<in> set ?all
              \<and> 0 \<le> startIdx (segment c) \<and> startIdx (segment c) < endIdx (segment c)
              \<and> endIdx (segment c) < int (length ?ps)
              \<and> (\<forall>i. startIdx (segment c) \<le> i \<and> i \<le> endIdx (segment c) \<longrightarrow> i \<notin> ?rej)
              \<and> seg_length (segment c)
                  = arcLength ?ps (nat (startIdx (segment c))) (nat (endIdx (segment c)))
              \<and> (\<forall>a b. a \<le> b \<and> b < length ?ps \<and> (\<forall>j. a \<le> j \<and> j \<le> b \<longrightarrow> int j \<notin> ?rej)
                      \<longrightarrow> arcLength ?ps a b \<le> seg_length (segment c))"
    proof (intro exI[of _ c] conjI)
      show "findOptimalPlacement ctx path label fontSize metrics fontFamily
                  = Inr \<lparr>placement = Some c,
                         warning = Some (TextExceedsSegment ?len (seg_length (segment c))),
                         allCandidates = ?all, textLength = ?len\<rparr>" by (rule res)
      show "c \<in> set ?all" by (rule cin)
      show "0 \<le> startIdx (segment c)" by (simp add: seg)
      show "startIdx (segment c) < endIdx (segment c)" using SE(2) by (simp add: seg)
      show "endIdx (segment c) < int (length ?ps)" using SE(3) by (simp add: seg freeRun_def)
      show "\<forall>i. startIdx (segment c) \<le> i \<and> i \<le> endIdx (segment c) \<longrightarrow> i \<notin> ?rej" by (rule free)
      show "seg_length (segment c)
              = arcLength ?ps (nat (startIdx (segment c))) (nat (endIdx (segment c)))"
        by (simp add: seg)
      show "\<forall>a b. a \<le> b \<and> b < length ?ps \<and> (\<forall>j. a \<le> j \<and> j \<le> b \<longrightarrow> int j \<notin> ?rej)
                      \<longrightarrow> arcLength ?ps a b \<le> seg_length (segment c)" by (rule best)
    qed
  next
    assume none: "\<not> (\<exists>a b. a < b \<and> b < length ?ps \<and> (\<forall>j. a \<le> j \<and> j \<le> b \<longrightarrow> int j \<notin> ?rej)
                  \<and> 0 < arcLength ?ps a b)"
    have "?all = []"
    proof (rule ccontr)
      assume "?all \<noteq> []"
      then obtain c where "c \<in> set ?all" by (cases ?all) auto
      with spec(1) obtain S E where "S < E" "freeRun path metrics S E" "0 < arcLength ?ps S E"
        unfolding runCandidate_def by blast
      with none show False unfolding freeRun_def by blast
    qed
    then show "findOptimalPlacement ctx path label fontSize metrics fontFamily
            = Inr \<lparr>placement = None, warning = Some EntirePathProblematic,
                   allCandidates = [], textLength = ?len\<rparr>"
      using nofit by (simp add: findOptimalPlacement_def Let_def)
  qed
qed

lemma measure_Mississippi: "measureTextLength None ''Mississippi'' 16 ''Arial'' = 528 / 5"
  by (simp add: measureTextLength_def)

lemma measure_Test: "measureTextLength None ''Test'' 16 ''Arial'' = 192 / 5"
  by (simp add: measureTextLength_def)

lemma noCandidates_straight:
  assumes p: "points path = linePoints 6 10" and r: "rejectedIndices metrics = {0, 1, 4, 5}"
    and t: "10 < t"
  shows "findCandidates path t metrics = []"
  using t
  by (simp add: findCandidates_def p length_line r upt_rec extendLoop.simps dist_line Let_def)

lemma noCandidates_sparse:
  assumes p: "points path = linePoints 5 100" and r: "rejectedIndices metrics = {0, 1, 3, 4}"
  shows "findCandidates path t metrics = []"
  by (simp add: findCandidates_def p length_line r upt_rec extendLoop.simps dist_line Let_def)

lemma validSegments_straight:
  assumes p: "points path = linePoints 6 10" and r: "rejectedIndices metrics = {0, 1, 4, 5}"
  shows "findAllValidSegments path metrics = [makeCandidate path metrics 2 3 10]"
proof -
  have run: "runLoop path metrics 3 0 2 = (10, 3)"
    using dist_line(1)[of 2 6 10]
    by (simp add: runLoop.simps[of _ _ 3] runLoop.simps[of _ _ 4] p r length_line)
  have v4: "validLoop path metrics 4 [makeCandidate path metrics 2 3 10]
              = [makeCandidate path metrics 2 3 10]"
    by (simp add: validLoop.simps[of _ _ 4] validLoop.simps[of _ _ 5] p r length_line)
  have v2: "validLoop path metrics 2 [] = [makeCandidate path metrics 2 3 10]"
    using run v4 by (simp add: validLoop.simps[of _ _ 2] p r length_line Let_def)
  have "validLoop path metrics 1 [] = validLoop path metrics 2 []"
    by (subst validLoop.simps) (simp add: p r length_line numeral_2_eq_2)
  moreover have "validLoop path metrics 0 [] = validLoop path metrics 1 []"
    by (subst validLoop.simps) (simp add: p r length_line)
  ultimately show ?thesis
    using v2 by (simp add: findAllValidSegments_def)
qed

text \<open>
  Claim C4 as stated fails when the only non-rejected run is a single point. The
  straight path of five points parses and is analysed to the edge regions \<open>[0,1]\<close> and
  \<open>[3,4]\<close>; index 2 is not rejected, so a non-rejected run exists and the path is not
  entirely rejected, yet for the label 'Test' the result is no placement with the
  warning that the entire path is problematic.
\<close>

theorem findOptimalPlacement_single_point_counterexample:
  "parse (\<lambda>s. Inl InvalidPolygon) (CoordArray sparseCoords) = Inr sparsePath
   \<and> analyzeGeometry sparsePath = Inr sparseMetrics
   \<and> (2::int) \<notin> rejectedIndices sparseMetrics
   \<and> findCandidates sparsePath (measureTextLength None ''Test'' 16 ''Arial'') sparseMetrics = []
   \<and> findOptimalPlacement None sparsePath ''Test'' 16 sparseMetrics ''Arial''
       = Inr \<lparr>placement = None, warning = Some EntirePathProblematic, allCandidates = [],
              textLength = 192 / 5\<rparr>"
proof -
  have p: "points sparsePath = linePoints 5 100" by (simp add: sparsePath_def)
  have nc: "\<And>t. findCandidates sparsePath t sparseMetrics = []"
    by (rule noCandidates_sparse[OF p rejected_sparse])
  have run: "runLoop sparsePath sparseMetrics 3 0 2 = (0, 2)"
    by (simp add: runLoop.simps[of _ _ 3] p rejected_sparse length_line)
  have v3: "validLoop sparsePath sparseMetrics 3 [] = []"
    by (simp add: validLoop.simps[of _ _ 3] validLoop.simps[of _ _ 4] p rejected_sparse length_line)
  have v2: "validLoop sparsePath sparseMetrics 2 [] = []"
    using run v3 by (simp add: validLoop.simps[of _ _ 2] p rejected_sparse length_line Let_def)
  have "validLoop sparsePath sparseMetrics 1 [] = validLoop sparsePath sparseMetrics 2 []"
    by (subst validLoop.simps) (simp add: p rejected_sparse length_line numeral_2_eq_2)
  moreover have "validLoop sparsePath sparseMetrics 0 [] = validLoop sparsePath sparseMetrics 1 []"
    by (subst validLoop.simps) (simp add: p rejected_sparse length_line)
  ultimately have va: "findAllValidSegments sparsePath sparseMetrics = []"
    using v2 by (simp add: findAllValidSegments_def)
  show ?thesis
    using nc va buildPath_sparse analyze_sparse measure_Test
    by (simp add: findOptimalPlacement_def Let_def rejected_sparse parse_def)
qed

text \<open>
  Instances of the amended claim C4: a label longer than the only free window of the
  straight path of six points, and the straight path of five points, which has no free
  window of two points.
\<close>

theorem findOptimalPlacement_fallback_witness:
  "findCandidates straightPath (measureTextLength None ''Mississippi'' 16 ''Arial'') straightMetrics = []
   \<and> (2::int) \<notin> rejectedIndices straightMetrics \<and> (3::int) \<notin> rejectedIndices straightMetrics
   \<and> findOptimalPlacement None straightPath ''Mississippi'' 16 straightMetrics ''Arial''
       = Inr \<lparr>placement = Some (makeCandidate straightPath straightMetrics 2 3 10),
              warning = Some (TextExceedsSegment (528 / 5) 10),
              allCandidates = [makeCandidate straightPath straightMetrics 2 3 10],
              textLength = 528 / 5\<rparr>
   \<and> findCandidates sparsePath (measureTextLength None ''River'' 16 ''Arial'') sparseMetrics = []
   \<and> findOptimalPlacement None sparsePath ''River'' 16 sparseMetrics ''Arial''
       = Inr \<lparr>placement = None, warning = Some EntirePathProblematic, allCandidates = [],
              textLength = 48\<rparr>"
proof -
  have p6: "points straightPath = linePoints 6 10" by (simp add: straightPath_def)
  have p5: "points sparsePath = linePoints 5 100" by (simp add: sparsePath_def)
  have n6: "findCandidates straightPath (measureTextLength None ''Mississippi'' 16 ''Arial'')
              straightMetrics = []"
    by (rule noCandidates_straight[OF p6 rejected_straight]) (simp add: measure_Mississippi)
  have n5: "findCandidates sparsePath (measureTextLength None ''River'' 16 ''Arial'')
              sparseMetrics = []"
    by (rule noCandidates_sparse[OF p5 rejected_sparse])
  have all6: "findAllValidSegments straightPath straightMetrics
                = [makeCandidate straightPath straightMetrics 2 3 10]"
    by (rule validSegments_straight[OF p6 rejected_straight])
  have run6: "\<exists>a b. a < b \<and> b < length (points straightPath)
            \<and> (\<forall>j. a \<le> j \<and> j \<le> b \<longrightarrow> int j \<notin> rejectedIndices straightMetrics)
            \<and> 0 < (\<Sum>i = a..<b. distance (points straightPath ! i) (points straightPath ! (i + 1)))"
  proof -
    have free: "\<forall>j. (2::nat) \<le> j \<and> j \<le> 3 \<longrightarrow> int j \<notin> rejectedIndices straightMetrics"
    proof (intro allI impI)
      fix j :: nat assume "2 \<le> j \<and> j \<le> 3"
      then have "j = 2 \<or> j = 3" by linarith
      then show "int j \<notin> rejectedIndices straightMetrics"
        by (auto simp: rejected_straight)
    qed
    have "{2..<3::nat} = {2}" by auto
    then have pos: "0 < (\<Sum>i = (2::nat)..<3.
                      distance (points straightPath ! i) (points straightPath ! (i + 1)))"
      using dist_line(1)[of 2 6 10] by (simp add: p6)
    have "(3::nat) < length (points straightPath)" by (simp add: p6 length_line)
    with free pos show ?thesis
      by (intro exI[of _ "2::nat"] exI[of _ "3::nat"]) simp
  qed
  have none5: "\<not> (\<exists>a b. a < b \<and> b < length (points sparsePath)
               \<and> (\<forall>j. a \<le> j \<and> j \<le> b \<longrightarrow> int j \<notin> rejectedIndices sparseMetrics)
               \<and> 0 < (\<Sum>i = a..<b. distance (points sparsePath ! i) (points sparsePath ! (i + 1))))"
  proof
    assume "\<exists>a b. a < b \<and> b < length (points sparsePath)
               \<and> (\<forall>j. a \<le> j \<and> j \<le> b \<longrightarrow> int j \<notin> rejectedIndices sparseMetrics)
               \<and> 0 < (\<Sum>i = a..<b. distance (points sparsePath ! i) (points sparsePath ! (i + 1)))"
    then obtain a b where ab: "a < b" "b < 5"
      and free: "\<forall>j. a \<le> j \<and> j \<le> b \<longrightarrow> int j \<notin> {0, 1, 3, 4 :: int}"
      by (auto simp: p5 length_line rejected_sparse)
    from free ab have "int a \<notin> {0, 1, 3, 4 :: int}" "int (a + 1) \<notin> {0, 1, 3, 4 :: int}"
      by (metis le_refl less_imp_le, metis Suc_eq_plus1 Suc_leI le_add1)
    then show False using ab by auto
  qed
  from findOptimalPlacement_fallback[OF n6] run6 obtain c where
    c: "findOptimalPlacement None straightPath ''Mississippi'' 16 straightMetrics ''Arial''
          = Inr \<lparr>placement = Some c,
                 warning = Some (TextExceedsSegment
                             (measureTextLength None ''Mississippi'' 16 ''Arial'')
                             (seg_length (segment c))),
                 allCandidates = findAllValidSegments straightPath straightMetrics,
                 textLength = measureTextLength None ''Mississippi'' 16 ''Arial''\<rparr>"
      "c \<in> set (findAllValidSegments straightPath straightMetrics)"
    by blast
  from c(2) have ceq: "c = makeCandidate straightPath straightMetrics 2 3 10"
    by (simp add: all6)
  have r6: "findOptimalPlacement None straightPath ''Mississippi'' 16 straightMetrics ''Arial''
       = Inr \<lparr>placement = Some (makeCandidate straightPath straightMetrics 2 3 10),
              warning = Some (TextExceedsSegment (528 / 5) 10),
              allCandidates = [makeCandidate straightPath straightMetrics 2 3 10],
              textLength = 528 / 5\<rparr>"
    using c(1) unfolding ceq all6 measure_Mississippi by (simp add: segment_makeCandidate)
  have r5: "findOptimalPlacement None sparsePath ''River'' 16 sparseMetrics ''Arial''
       = Inr \<lparr>placement = None, warning = Some EntirePathProblematic, allCandidates = [],
              textLength = 48\<rparr>"
    using findOptimalPlacement_fallback[OF n5] none5 by (simp add: measureTextLength_def)
  show ?thesis
    using n6 n5 r6 r5 by (simp add: rejected_straight)
qed

section \<open>The range of the scores in exact arithmetic\<close>

lemma foldl_add_sum_list:
  fixes f :: "nat \<Rightarrow> real"
  shows "foldl (\<lambda>acc i. acc + f i) a xs = a + sum_list (map f xs)"
  by (induction xs arbitrary: a) (simp_all add: add.assoc)

lemma foldl_guarded_sum_list:
  fixes f :: "nat \<Rightarrow> real"
  assumes "\<forall>i\<in>set xs. g i"
  shows "foldl (\<lambda>acc i. if g i then acc + f i else acc) a xs = a + sum_list (map f xs)"
  using assms by (induction xs arbitrary: a) (simp_all add: add.assoc)

lemma sum_list_upt: "sum_list (map f [a..<b]) = (\<Sum>i = a..<b. (f i :: real))"
  by (simp add: interv_sum_list_conv_sum_set_nat)

lemma accumulateLength_arc:
  assumes "b < length ps"
  shows "accumulateLength ps a b = arcLength ps a b"
proof -
  have "\<forall>i\<in>set [a..<b]. i + 1 < length ps" using assms by auto
  from foldl_guarded_sum_list[OF this, of "\<lambda>i. distance (ps ! i) (ps ! (i + 1))" 0]
  show ?thesis
    unfolding accumulateLength_def by (simp add: sum_list_upt)
qed

lemma totalLength_arc: "totalLength ps = arcLength ps 0 (length ps - 1)"
proof -
  have "totalLength ps = (\<Sum>i = 1..<length ps. distance (ps ! (i - 1)) (ps ! i))"
    unfolding totalLength_def
    by (simp add: Let_def foldl_add_sum_list sum_list_upt distance_def power2_eq_square)
  also have "\<dots> = (\<Sum>i = 0..<length ps - 1. distance (ps ! i) (ps ! (i + 1)))"
  proof (cases "length ps")
    case 0
    then show ?thesis by simp
  next
    case (Suc n)
    have "(\<Sum>i = Suc 0..<Suc n. distance (ps ! (i - 1)) (ps ! i))
          = (\<Sum>i = 0..<n. distance (ps ! (Suc i - 1)) (ps ! Suc i))"
      by (rule sum.shift_bounds_Suc_ivl)
    then show ?thesis using Suc by simp
  qed
  finally show ?thesis .
qed

lemma buildPath_length:
  "buildPath coords = Inr path \<Longrightarrow> path_length path = totalLength (points path)"
  by (auto simp: buildPath_def split: option.splits prod.splits)

lemma parse_buildPath:
  "parse parsePolygon data = Inr path \<Longrightarrow> \<exists>coords. buildPath coords = Inr path"
  by (auto simp: parse_def split: input.splits sum.splits)

lemma curvature_term_nonneg:
  fixes m1 m2 c :: real
  shows "0 \<le> (if m1 = 0 \<or> m2 = 0 then 0
               else if (m1 + m2) / 2 > 0
                    then arccos (max (- 1) (min 1 c)) * (180 / pi) / ((m1 + m2) / 2)
                    else 0)"
proof -
  have "0 \<le> arccos (max (- 1) (min 1 c))"
    by (rule arccos_lbound) auto
  then have "0 \<le> arccos (max (- 1) (min 1 c)) * (180 / pi)"
    by (intro mult_nonneg_nonneg) simp_all
  then have "(m1 + m2) / 2 > 0
             \<Longrightarrow> 0 \<le> arccos (max (- 1) (min 1 c)) * (180 / pi) / ((m1 + m2) / 2)"
    by (rule divide_nonneg_pos)
  then show ?thesis by (simp only: split: if_split) blast
qed

lemma rawCurvature_nonneg: "0 \<le> rawCurvature ps i"
  unfolding rawCurvature_def Let_def by (rule curvature_term_nonneg)

lemma rawCurvatures_nonneg: "j < length ps \<Longrightarrow> 0 \<le> rawCurvatures ps ! j"
  by (simp add: rawCurvatures_def rawCurvature_nonneg)

lemma calculateCurvature_nonneg: "x \<in> set (calculateCurvature path) \<Longrightarrow> 0 \<le> x"
proof -
  assume x: "x \<in> set (calculateCurvature path)"
  let ?ps = "points path"
  let ?n = "length ?ps"
  let ?raw = "rawCurvatures ?ps"
  define g where "g = (\<lambda>i. if i = 0 \<or> i = ?n - 1 then 0
                 else if i = 1 then (?raw ! i + ?raw ! (i + 1)) / 2
                 else if i = ?n - 2 then (?raw ! (i - 1) + ?raw ! i) / 2
                 else (?raw ! (i - 1) + ?raw ! i + ?raw ! (i + 1)) / 3)"
  have cc: "calculateCurvature path = (if ?n < 3 then [] else map g [0..<?n])"
    unfolding calculateCurvature_def Let_def g_def by simp
  with x have "x \<in> set (map g [0..<?n])"
    by (simp split: if_splits)
  then obtain i where i: "i < ?n" and xi: "x = g i"
    by auto
  show "0 \<le> x"
  proof (cases "i = 0 \<or> i = ?n - 1")
    case True
    then show ?thesis using xi by (simp add: g_def)
  next
    case False
    then have "i - 1 < ?n" "i < ?n" "i + 1 < ?n" using i by linarith+
    then have nn: "0 \<le> ?raw ! (i - 1)" "0 \<le> ?raw ! i" "0 \<le> ?raw ! (i + 1)"
      by (simp_all add: rawCurvatures_nonneg)
    have gi: "g i = (if i = 1 then (?raw ! i + ?raw ! (i + 1)) / 2
                 else if i = ?n - 2 then (?raw ! (i - 1) + ?raw ! i) / 2
                 else (?raw ! (i - 1) + ?raw ! i + ?raw ! (i + 1)) / 3)"
      by (simp only: g_def False if_False)
    have "0 \<le> (?raw ! i + ?raw ! (i + 1)) / 2" "0 \<le> (?raw ! (i - 1) + ?raw ! i) / 2"
      "0 \<le> (?raw ! (i - 1) + ?raw ! i + ?raw ! (i + 1)) / 3"
      using nn by simp_all
    then show ?thesis unfolding xi gi by presburger
  qed
qed

lemma scanRuns_covers:
  "scanRuns path r hits i inRun s segs = Inr st \<Longrightarrow> (inRun \<longrightarrow> s \<le> int i)
   \<Longrightarrow> set segs \<subseteq> set (snd (snd st))
       \<and> (\<forall>k < length hits. hits ! k \<longrightarrow> covered st (int (i + k)))
       \<and> (inRun \<longrightarrow> (\<forall>x. s \<le> x \<and> x < int i \<longrightarrow> covered st x))"
proof (induction hits arbitrary: i inRun s segs)
  case Nil
  then show ?case by (auto simp: covered_def)
next
  case (Cons hit rest)
  show ?case
  proof (cases hit)
    case True
    show ?thesis
    proof (cases inRun)
      case False
      have run: "scanRuns path r rest (Suc i) True (int i) segs = Inr st"
        using Cons.prems(1) True False by simp
      from Cons.IH[OF run] have ih: "set segs \<subseteq> set (snd (snd st))"
        "\<forall>k < length rest. rest ! k \<longrightarrow> covered st (int (Suc i + k))"
        "\<forall>x. int i \<le> x \<and> x < int (Suc i) \<longrightarrow> covered st x"
        by simp_all
      have "\<forall>k < length (hit # rest). (hit # rest) ! k \<longrightarrow> covered st (int (i + k))"
      proof (intro allI impI)
        fix k assume k: "k < length (hit # rest)" "(hit # rest) ! k"
        show "covered st (int (i + k))"
        proof (cases k)
          case 0
          then show ?thesis using ih(3) by simp
        next
          case (Suc j)
          then show ?thesis using k ih(2) by simp
        qed
      qed
      then show ?thesis using ih(1) False by simp
    next
      case inR: True
      have run: "scanRuns path r rest (Suc i) True s segs = Inr st"
        using Cons.prems(1) True inR by simp
      have le: "s \<le> int i" using Cons.prems(2) inR by simp
      from Cons.IH[OF run] le have ih: "set segs \<subseteq> set (snd (snd st))"
        "\<forall>k < length rest. rest ! k \<longrightarrow> covered st (int (Suc i + k))"
        "\<forall>x. s \<le> x \<and> x < int (Suc i) \<longrightarrow> covered st x"
        by simp_all
      have "\<forall>k < length (hit # rest). (hit # rest) ! k \<longrightarrow> covered st (int (i + k))"
      proof (intro allI impI)
        fix k assume k: "k < length (hit # rest)" "(hit # rest) ! k"
        show "covered st (int (i + k))"
        proof (cases k)
          case 0
          then show ?thesis using ih(3) le by simp
        next
          case (Suc j)
          then show ?thesis using k ih(2) by simp
        qed
      qed
      moreover have "\<forall>x. s \<le> x \<and> x < int i \<longrightarrow> covered st x"
        using ih(3) by simp
      ultimately show ?thesis using ih(1) by simp
    qed
  next
    case nohit: False
    show ?thesis
    proof (cases inRun)
      case False
      have run: "scanRuns path r rest (Suc i) False s segs = Inr st"
        using Cons.prems(1) nohit False by simp
      from Cons.IH[OF run] have ih: "set segs \<subseteq> set (snd (snd st))"
        "\<forall>k < length rest. rest ! k \<longrightarrow> covered st (int (Suc i + k))"
        by simp_all
      have "\<forall>k < length (hit # rest). (hit # rest) ! k \<longrightarrow> covered st (int (i + k))"
      proof (intro allI impI)
        fix k assume k: "k < length (hit # rest)" "(hit # rest) ! k"
        show "covered st (int (i + k))"
        proof (cases k)
          case 0
          then show ?thesis using k nohit by simp
        next
          case (Suc j)
          then show ?thesis using k ih(2) by simp
        qed
      qed
      then show ?thesis using ih(1) False by simp
    next
      case inR: True
      from Cons.prems(1) nohit inR obtain len where
        len: "calculateSegmentLength path s (int i - 1) = Inr len"
        by (cases "calculateSegmentLength path s (int i - 1)") auto
      let ?new = "\<lparr>startIdx = s, endIdx = int i - 1, seg_length = len, reason = Some r\<rparr>"
      have run: "scanRuns path r rest (Suc i) False s (segs @ [?new]) = Inr st"
        using Cons.prems(1) nohit inR len by simp
      from Cons.IH[OF run] have ih: "set (segs @ [?new]) \<subseteq> set (snd (snd st))"
        "\<forall>k < length rest. rest ! k \<longrightarrow> covered st (int (Suc i + k))"
        by simp_all
      have "\<forall>k < length (hit # rest). (hit # rest) ! k \<longrightarrow> covered st (int (i + k))"
      proof (intro allI impI)
        fix k assume k: "k < length (hit # rest)" "(hit # rest) ! k"
        show "covered st (int (i + k))"
        proof (cases k)
          case 0
          then show ?thesis using k nohit by simp
        next
          case (Suc j)
          then show ?thesis using k ih(2) by simp
        qed
      qed
      moreover have "\<forall>x. s \<le> x \<and> x < int i \<longrightarrow> covered st x"
      proof (intro allI impI)
        fix x assume x: "s \<le> x \<and> x < int i"
        have "?new \<in> set (snd (snd st))" using ih(1) by auto
        moreover have "startIdx ?new \<le> x \<and> x \<le> endIdx ?new" using x by simp
        ultimately show "covered st x" unfolding covered_def by blast
      qed
      ultimately show ?thesis using ih(1) by simp
    qed
  qed
qed

lemma findRuns_covers:
  assumes "findRuns path r hits = Inr segs" "k < length hits" "hits ! k"
  shows "\<exists>seg\<in>set segs. startIdx seg \<le> int k \<and> int k \<le> endIdx seg"
proof -
  from assms(1) obtain st where
    scan: "scanRuns path r hits 0 False (- 1) [] = Inr st"
    and close: "closeRun path r (length hits) st = Inr segs"
    by (auto simp: findRuns_def split: sum.splits)
  from scanRuns_covers[OF scan] assms(2,3) have cov: "covered st (int k)"
    by auto
  obtain inRun s segs0 where st: "st = (inRun, s, segs0)" by (cases st) auto
  show ?thesis
  proof (cases inRun)
    case False
    then have "segs = segs0" using close st by simp
    with cov st False show ?thesis by (simp add: covered_def)
  next
    case True
    then obtain len where
      segs: "segs = segs0 @ [\<lparr>startIdx = s, endIdx = int (length hits) - 1, seg_length = len,
                               reason = Some r\<rparr>]"
      using close st by (auto split: sum.splits)
    from cov st have "(\<exists>seg\<in>set segs0. startIdx seg \<le> int k \<and> int k \<le> endIdx seg) \<or> s \<le> int k"
      by (auto simp: covered_def)
    then show ?thesis
    proof
      assume "\<exists>seg\<in>set segs0. startIdx seg \<le> int k \<and> int k \<le> endIdx seg"
      then show ?thesis using segs by auto
    next
      assume "s \<le> int k"
      moreover have "int k \<le> int (length hits) - 1" using assms(2) by simp
      ultimately show ?thesis using segs by simp
    qed
  qed
qed

lemma analyzeGeometry_curvatures:
  "analyzeGeometry path = Inr metrics \<Longrightarrow> curvatures metrics = calculateCurvature path"
  by (auto simp: analyzeGeometry_def Let_def split: sum.splits option.splits if_splits)

lemma analyzeGeometry_narrow:
  assumes "analyzeGeometry path = Inr metrics" "widths path = Some ws" "i < length ws"
    and "toNumber (ws ! i) < 10"
  shows "int i \<in> rejectedIndices metrics"
proof -
  have ne: "0 < length ws" "ws \<noteq> []" using assms(3) by auto
  from assms(1) assms(2) ne have "findNarrowSections path 10 = Inr (narrowSections metrics)"
    by (auto simp: analyzeGeometry_def Let_def split: sum.splits)
  then have "findRuns path NarrowSection (map (\<lambda>w. toNumber w < 10) ws)
               = Inr (narrowSections metrics)"
    using assms(2) ne by (simp add: findNarrowSections_def)
  from findRuns_covers[OF this, of i] assms(3,4)
  obtain seg where "seg \<in> set (narrowSections metrics)" "startIdx seg \<le> int i" "int i \<le> endIdx seg"
    by auto
  then show ?thesis
    unfolding rejectedIndices_def segmentIndices_def by auto
qed

lemma sumCount_nonneg:
  fixes f :: "nat \<Rightarrow> real"
  shows "0 \<le> sm \<Longrightarrow> \<forall>i\<in>set xs. P i \<longrightarrow> 0 \<le> f i
    \<Longrightarrow> 0 \<le> fst (foldl (\<lambda>(sm, cnt) i. if P i then (sm + f i, cnt + 1) else (sm, cnt))
                    (sm, cnt :: nat) xs)"
  by (induction xs arbitrary: sm cnt) auto

lemma average_score_bounds:
  fixes total :: real
  assumes "0 \<le> total"
  shows "0 \<le> (if cnt > 0 then total / real cnt else 0)"
  using assms by simp

lemma calculateCurvatureScore_range:
  assumes "\<forall>x\<in>set (curvatures metrics). 0 \<le> x"
  shows "0 \<le> calculateCurvatureScore path s e metrics
         \<and> calculateCurvatureScore path s e metrics \<le> 100"
proof -
  let ?cs = "curvatures metrics"
  define r where "r = foldl (\<lambda>(sm, cnt) i. if i < length ?cs then (sm + ?cs ! i, cnt + 1) else (sm, cnt))
              (0, 0 :: nat) [s..<Suc e]"
  have "0 \<le> fst r"
    unfolding r_def
    using assms
    by (intro sumCount_nonneg[where P = "\<lambda>i. i < length ?cs" and f = "\<lambda>i. ?cs ! i"]) auto
  then have avg: "0 \<le> (if snd r > 0 then fst r / real (snd r) else 0)"
    by (rule average_score_bounds)
  have "calculateCurvatureScore path s e metrics
          = max 0 (100 - (if snd r > 0 then fst r / real (snd r) else 0) * 3)"
    unfolding calculateCurvatureScore_def Let_def r_def by (simp add: case_prod_beta)
  then show ?thesis using avg by simp
qed

lemma calculateWidthScore_range:
  assumes "\<And>ws i. widths path = Some ws \<Longrightarrow> s \<le> i \<Longrightarrow> i \<le> e \<Longrightarrow> i < length ws
             \<Longrightarrow> ws ! i \<noteq> None \<Longrightarrow> 0 \<le> the (ws ! i)"
  shows "0 \<le> calculateWidthScore path s e \<and> calculateWidthScore path s e \<le> 100"
proof (cases "widths path")
  case None
  then show ?thesis by (simp add: calculateWidthScore_def)
next
  case (Some ws)
  show ?thesis
  proof (cases "length ws = 0")
    case True
    then show ?thesis using Some by (simp add: calculateWidthScore_def)
  next
    case False
    define r where "r = foldl (\<lambda>(sm, cnt) i.
                            if i < length ws \<and> ws ! i \<noteq> None then (sm + the (ws ! i), cnt + 1)
                            else (sm, cnt))
                     (0, 0 :: nat) [s..<Suc e]"
    have each: "\<forall>i\<in>set [s..<Suc e]. i < length ws \<and> ws ! i \<noteq> None \<longrightarrow> 0 \<le> the (ws ! i)"
    proof (intro ballI impI)
      fix i assume i: "i \<in> set [s..<Suc e]" and w: "i < length ws \<and> ws ! i \<noteq> None"
      from i have "s \<le> i" "i \<le> e" by auto
      then show "0 \<le> the (ws ! i)" using assms[OF Some, of i] w by blast
    qed
    have "0 \<le> fst r"
      unfolding r_def
      by (rule sumCount_nonneg[where P = "\<lambda>i. i < length ws \<and> ws ! i \<noteq> None"
            and f = "\<lambda>i. the (ws ! i)", OF _ each]) simp
    then have avg: "0 \<le> (if snd r > 0 then fst r / real (snd r) else 0)"
      by (rule average_score_bounds)
    have "calculateWidthScore path s e
            = min 100 (((if snd r > 0 then fst r / real (snd r) else 0) / 20) * 100)"
      using Some False
      unfolding calculateWidthScore_def Let_def r_def by (simp add: case_prod_beta)
    then show ?thesis using avg by simp
  qed
qed

lemma position_formula_range:
  fixes c T :: real
  assumes "0 \<le> c" "c \<le> T"
  shows "0 \<le> (if T / 2 > 0 then 100 * (1 - \<bar>c - T / 2\<bar> / (T / 2)) else 100)
         \<and> (if T / 2 > 0 then 100 * (1 - \<bar>c - T / 2\<bar> / (T / 2)) else 100) \<le> 100"
proof (cases "T / 2 > 0")
  case False
  then show ?thesis by simp
next
  case True
  define q where "q = \<bar>c - T / 2\<bar> / (T / 2)"
  have "\<bar>c - T / 2\<bar> \<le> T / 2"
    using assms by (intro abs_leI) linarith+
  then have "q \<le> 1"
    unfolding q_def using True by (subst divide_le_eq_1_pos) simp_all
  moreover have "0 \<le> q"
    unfolding q_def using True by (intro divide_nonneg_pos) simp_all
  ultimately have "0 \<le> 100 * (1 - q) \<and> 100 * (1 - q) \<le> 100"
    by simp
  then show ?thesis
    using True unfolding q_def by presburger
qed

lemma calculatePositionScore_range:
  assumes se: "s \<le> e" "e < length (points path)"
    and len: "path_length path = arcLength (points path) 0 (length (points path) - 1)"
  shows "0 \<le> calculatePositionScore path s e \<and> calculatePositionScore path s e \<le> 100"
proof -
  let ?ps = "points path"
  let ?T = "path_length path"
  let ?A = "arcLength ?ps 0 s"
  let ?B = "arcLength ?ps s e"
  let ?C = "arcLength ?ps e (length ?ps - 1)"
  have a: "accumulateLength ?ps 0 s = ?A" "accumulateLength ?ps s e = ?B"
    using se by (simp_all add: accumulateLength_arc)
  have "?T = ?A + ?B + ?C"
    unfolding len
    using se arcLength_split[of 0 s "length ?ps - 1" ?ps] arcLength_split[of s e "length ?ps - 1" ?ps]
    by simp
  moreover have "0 \<le> ?A" "0 \<le> ?B" "0 \<le> ?C"
    by (rule arcLength_nonneg)+
  ultimately have c: "0 \<le> ?A + ?B / 2" "?A + ?B / 2 \<le> ?T"
    by linarith+
  have eq: "calculatePositionScore path s e
        = (if ?T / 2 > 0 then 100 * (1 - \<bar>?A + ?B / 2 - ?T / 2\<bar> / (?T / 2)) else 100)"
    unfolding calculatePositionScore_def Let_def a by (rule refl)
  show ?thesis
    unfolding eq by (rule position_formula_range[OF c])
qed

lemma squares_fold_nonneg:
  fixes g :: "real \<Rightarrow> real"
  shows "0 \<le> a \<Longrightarrow> 0 \<le> foldl (\<lambda>acc x. acc + g x * g x) a xs"
  by (induction xs arbitrary: a) simp_all

lemma calculateStraightnessScore_range:
  "0 \<le> calculateStraightnessScore path s e \<and> calculateStraightnessScore path s e \<le> 100"
proof -
  let ?ps = "points path"
  define angles where "angles =
      map (\<lambda>i. atan2 (py (?ps ! (i + 1)) - py (?ps ! i)) (px (?ps ! (i + 1)) - px (?ps ! i)))
        (filter (\<lambda>i. i + 1 < length ?ps) [s..<e])"
  define avgAngle where "avgAngle = foldl (+) 0 angles / real (length angles)"
  define v where "v = foldl (\<lambda>acc angle. acc + wrapUp (wrapDown (angle - avgAngle))
                                             * wrapUp (wrapDown (angle - avgAngle))) 0 angles"
  have "0 \<le> v"
    unfolding v_def
    by (rule squares_fold_nonneg[where g = "\<lambda>angle. wrapUp (wrapDown (angle - avgAngle))"]) simp
  then have "0 \<le> sqrt (v / real (length angles)) * (180 / pi)"
    by (intro mult_nonneg_nonneg) simp_all
  then have b: "0 \<le> max 0 (100 - sqrt (v / real (length angles)) * (180 / pi) * 5)"
    "max 0 (100 - sqrt (v / real (length angles)) * (180 / pi) * 5) \<le> 100"
    by simp_all
  have eq: "calculateStraightnessScore path s e
        = (if int e - int s < 2 then 100
           else if length angles = 0 then 100
           else max 0 (100 - sqrt (v / real (length angles)) * (180 / pi) * 5))"
    unfolding calculateStraightnessScore_def Let_def angles_def avgAngle_def v_def by simp
  show ?thesis
  proof (cases "int e - int s < 2 \<or> length angles = 0")
    case True
    then show ?thesis unfolding eq by auto
  next
    case False
    then show ?thesis unfolding eq using b by simp
  qed
qed

lemma findCandidates_fits:
  "c \<in> set (findCandidates path textLen metrics) \<Longrightarrow> fitsWindow path textLen metrics c"
proof -
  have "\<forall>c\<in>set (findCandidates path textLen metrics). fitsWindow path textLen metrics c"
    unfolding findCandidates_def by (rule findCandidates_fold_fits) simp
  then show "c \<in> set (findCandidates path textLen metrics) \<Longrightarrow> fitsWindow path textLen metrics c"
    by blast
qed

lemma weighted_score_range:
  fixes a b c d :: real
  assumes "0 \<le> a \<and> a \<le> 100" "0 \<le> b \<and> b \<le> 100" "0 \<le> c \<and> c \<le> 100" "0 \<le> d \<and> d \<le> 100"
  shows "0 \<le> a * 0.4 + b * 0.2 + c * 0.2 + d * 0.2
         \<and> a * 0.4 + b * 0.2 + c * 0.2 + d * 0.2 \<le> 100"
  using assms by simp

text \<open>
  The formulas of the scorer read over the reals: for a path built by the parser, with
  the metrics of its analysis, every candidate that the enumeration emits has its four
  component scores and its overall score in \<open>[0, 100]\<close>. This is the range the formulas
  aim at. The source computes them in doubles, and the next section follows it on an
  input where the squares of the coordinate differences overflow.
\<close>

lemma scores_in_range_over_reals:
  assumes built: "parse parsePolygon data = Inr path"
    and analysed: "analyzeGeometry path = Inr metrics"
    and emitted: "c \<in> set (findCandidates path textLen metrics)"
  shows "0 \<le> curvature (scores c) \<and> curvature (scores c) \<le> 100
         \<and> 0 \<le> width (scores c) \<and> width (scores c) \<le> 100
         \<and> 0 \<le> position (scores c) \<and> position (scores c) \<le> 100
         \<and> 0 \<le> straightness (scores c) \<and> straightness (scores c) \<le> 100
         \<and> 0 \<le> score c \<and> score c \<le> 100"
proof -
  let ?ps = "points path"
  let ?rej = "rejectedIndices metrics"
  from findCandidates_fits[OF emitted] obtain S E len where
    c: "c = makeCandidate path metrics S E len" and SE: "S < E" "E < length ?ps"
    and free: "\<forall>i. int S \<le> i \<and> i \<le> int E \<longrightarrow> i \<notin> ?rej"
  proof -
    assume r: "\<And>S E len. c = makeCandidate path metrics S E len \<Longrightarrow> S < E \<Longrightarrow> E < length ?ps
                 \<Longrightarrow> \<forall>i. int S \<le> i \<and> i \<le> int E \<longrightarrow> i \<notin> ?rej \<Longrightarrow> thesis"
    assume f: "fitsWindow path textLen metrics c"
    let ?S = "nat (startIdx (segment c))" and ?E = "nat (endIdx (segment c))"
    from f have f1: "c = makeCandidate path metrics ?S ?E (seg_length (segment c))"
      and f2: "0 \<le> startIdx (segment c)" "startIdx (segment c) < endIdx (segment c)"
        "endIdx (segment c) < int (length ?ps)"
      and f3: "\<forall>i. startIdx (segment c) \<le> i \<and> i \<le> endIdx (segment c) \<longrightarrow> i \<notin> ?rej"
      unfolding fitsWindow_def by blast+
    have "?S < ?E" "?E < length ?ps" using f2 by linarith+
    moreover have "\<forall>i. int ?S \<le> i \<and> i \<le> int ?E \<longrightarrow> i \<notin> ?rej"
      using f2 f3 by simp
    ultimately show thesis using r[OF f1] by blast
  qed
  from parse_buildPath[OF built] obtain coords where "buildPath coords = Inr path" by blast
  then have len: "path_length path = arcLength ?ps 0 (length ?ps - 1)"
    using buildPath_length totalLength_arc by simp
  have curv: "\<forall>x\<in>set (curvatures metrics). 0 \<le> x"
    unfolding analyzeGeometry_curvatures[OF analysed] using calculateCurvature_nonneg by blast
  have wide: "\<And>ws i. widths path = Some ws \<Longrightarrow> S \<le> i \<Longrightarrow> i \<le> E \<Longrightarrow> i < length ws
             \<Longrightarrow> ws ! i \<noteq> None \<Longrightarrow> 0 \<le> the (ws ! i)"
  proof -
    fix ws i
    assume ws: "widths path = Some ws" and i: "S \<le> i" "i \<le> E" "i < length ws" "ws ! i \<noteq> None"
    from i(1,2) free have "int i \<notin> ?rej" by simp
    with analyzeGeometry_narrow[OF analysed ws i(3)] have "\<not> toNumber (ws ! i) < 10" by blast
    moreover from i(4) obtain w where "ws ! i = Some w" by auto
    ultimately show "0 \<le> the (ws ! i)" by simp
  qed
  let ?cu = "calculateCurvatureScore path S E metrics"
  let ?wi = "calculateWidthScore path S E"
  let ?po = "calculatePositionScore path S E"
  let ?st = "calculateStraightnessScore path S E"
  have r1: "0 \<le> ?cu \<and> ?cu \<le> 100" by (rule calculateCurvatureScore_range[OF curv])
  have r2: "0 \<le> ?wi \<and> ?wi \<le> 100" by (rule calculateWidthScore_range) (rule wide)
  have r3: "0 \<le> ?po \<and> ?po \<le> 100"
    using SE len by (intro calculatePositionScore_range) simp_all
  have r4: "0 \<le> ?st \<and> ?st \<le> 100" by (rule calculateStraightnessScore_range)
  have r5: "0 \<le> ?cu * 0.4 + ?wi * 0.2 + ?po * 0.2 + ?st * 0.2
            \<and> ?cu * 0.4 + ?wi * 0.2 + ?po * 0.2 + ?st * 0.2 \<le> 100"
    by (rule weighted_score_range[OF r1 r2 r3 r4])
  have sc: "scores c = \<lparr>curvature = ?cu, width = ?wi, position = ?po, straightness = ?st\<rparr>"
    "score c = ?cu * 0.4 + ?wi * 0.2 + ?po * 0.2 + ?st * 0.2"
    unfolding c by (simp_all add: makeCandidate_def scoreSegment_def Let_def)
  show ?thesis
    unfolding sc using r1 r2 r3 r4 r5 by simp
qed

section \<open>The scores where the squared differences overflow\<close>

lemma huge_pos: "0 < huge"
  by (simp add: huge_def)

lemma huge_finite: "toDouble huge = Fin huge"
proof -
  have "(10::real) ^ 160 < 16 ^ 160" by (rule power_strict_mono) simp_all
  also have "(16::real) ^ 160 = 2 ^ 640"
    using power_mult[of "2::real" 4 160] by simp
  also have "(2::real) ^ 640 \<le> 2 ^ 1024" by (rule power_increasing) simp_all
  finally have "huge < 2 ^ 1024" by (simp add: huge_def)
  moreover have "- (2 ^ 1024) < huge" using huge_pos
    by (meson less_trans neg_less_0_iff_less zero_less_numeral zero_less_power)
  ultimately show ?thesis by (simp add: toDouble_def)
qed

lemma huge_square_overflows: "toDouble (huge * huge) = PInf"
proof -
  have "(2::real) ^ 1024 = (2 ^ 16) ^ 64"
    using power_mult[of "2::real" 16 64] by simp
  also have "\<dots> \<le> (10 ^ 5) ^ 64" by (rule power_mono) simp_all
  also have "\<dots> = (10::real) ^ 320"
    using power_mult[of "10::real" 5 64] by simp
  also have "\<dots> = huge * huge"
    by (simp add: huge_def power_add[symmetric])
  finally show ?thesis by (simp add: toDouble_def)
qed

lemma toDouble_zero: "toDouble 0 = Fin 0"
  by (simp add: toDouble_def)

lemma jsub_Fin: "jsub (Fin a) (Fin b) = toDouble (a - b)"
  by (simp add: jsub_def)

lemma step_overflow:
  assumes "Suc i < n"
  shows "distanceD (linePoints n huge ! i) (linePoints n huge ! Suc i) = PInf"
proof -
  have "huge * (1 + real i) - huge * real i = huge" by (simp add: algebra_simps)
  then show ?thesis
    using assms
    by (simp add: distanceD_def nth_line jsub_Fin huge_finite huge_square_overflows
        toDouble_zero Let_def)
qed

lemma rawD_overflow:
  assumes "1 \<le> i" "Suc i < n"
  shows "rawCurvatureD (linePoints n huge) i = NaN"
proof -
  have a: "huge * real i - huge * real (i - 1) = huge"
    using assms(1) by (simp add: algebra_simps of_nat_diff)
  have b: "huge * real (i + 1) - huge * real i = huge"
    by (simp add: algebra_simps)
  have "i - 1 < n" "i < n" "i + 1 < n" using assms by simp_all
  then show ?thesis
    using a b
    by (simp add: rawCurvatureD_def nth_line Let_def jsub_Fin huge_finite
        huge_square_overflows toDouble_zero jmax_def jmin_def
        del: of_nat_Suc of_nat_add)
qed

lemma step_components:
  assumes "Suc i < n"
  shows "jsub (Fin (px (linePoints n huge ! Suc i))) (Fin (px (linePoints n huge ! i))) = Fin huge"
    and "jsub (Fin (py (linePoints n huge ! Suc i))) (Fin (py (linePoints n huge ! i))) = Fin 0"
proof -
  have "huge * (1 + real i) - huge * real i = huge" by (simp add: algebra_simps)
  then show "jsub (Fin (px (linePoints n huge ! Suc i))) (Fin (px (linePoints n huge ! i))) = Fin huge"
    using assms by (simp add: nth_line jsub_Fin huge_finite)
  show "jsub (Fin (py (linePoints n huge ! Suc i))) (Fin (py (linePoints n huge ! i))) = Fin 0"
    using assms by (simp add: nth_line jsub_Fin toDouble_zero)
qed

lemma totalLengthD_overflow: "totalLengthD (linePoints 6 huge) = PInf"
  by (simp add: totalLengthD_def length_line upt_rec Let_def step_components
      huge_square_overflows toDouble_zero)

lemma curvatureD_overflow:
  "calculateCurvatureD (linePoints 6 huge) = [Fin 0, NaN, NaN, NaN, NaN, Fin 0]"
  by (simp add: calculateCurvatureD_def rawCurvaturesD_def length_line rawD_overflow Let_def
      upt_rec)

lemma curvatureScoreD_overflow:
  "calculateCurvatureScoreD [Fin 0, NaN, NaN, NaN, NaN, Fin 0] 2 3 = NaN"
  by (simp add: calculateCurvatureScoreD_def upt_rec Let_def jsub_def jmax_def
      numeral_2_eq_2 numeral_3_eq_3)

lemma accD_overflow_02: "accumulateLengthD (linePoints 6 huge) 0 2 = PInf"
  using step_overflow[of 0 6] step_overflow[of 1 6]
  by (simp add: accumulateLengthD_def length_line upt_rec numeral_2_eq_2)

lemma accD_overflow_23: "accumulateLengthD (linePoints 6 huge) 2 3 = PInf"
  using step_overflow[of 2 6]
  by (simp add: accumulateLengthD_def length_line upt_rec numeral_2_eq_2 numeral_3_eq_3)

lemma positionScoreD_overflow:
  "calculatePositionScoreD (linePoints 6 huge) PInf 2 3 = NaN"
  by (simp add: calculatePositionScoreD_def accD_overflow_02 accD_overflow_23 Let_def jsub_def)

lemma parse_overflow:
  "(case buildPath overflowCoords of Inl err \<Rightarrow> False
    | Inr path \<Rightarrow> points path = linePoints 6 huge \<and> widths path = None)"
  by (simp add: buildPath_def validate_def overflowCoords_def Let_def linePoints_def upt_rec)

lemma step_back_overflow:
  assumes "Suc i < n"
  shows "distanceD (linePoints n huge ! Suc i) (linePoints n huge ! i) = PInf"
proof -
  have "huge * real i - huge * (1 + real i) = - huge" by (simp add: algebra_simps)
  moreover have "toDouble (- huge) = Fin (- huge)"
    using huge_finite by (simp add: toDouble_def split: if_splits)
  moreover have "toDouble (huge * huge) = PInf" by (rule huge_square_overflows)
  ultimately show ?thesis
    using assms
    by (simp add: distanceD_def nth_line jsub_Fin toDouble_zero Let_def)
qed

lemma no_sharp_hits:
  "findRuns path SharpCurve (sharpHitsD [Fin 0, NaN, NaN, NaN, NaN, Fin 0] 30) = Inr []"
  by (simp add: findRuns_def sharpHitsD_def)

lemma edgeBoundsD_overflow: "edgeBoundsD (linePoints 6 huge) PInf = (1, 4)"
proof -
  have s: "edgeStartLoopD (linePoints 6 huge) PInf 0 (Fin 0) = 1"
    by (simp add: edgeStartLoopD.simps length_line step_overflow Let_def)
  have e: "edgeEndLoopD (linePoints 6 huge) PInf 5 (Fin 0) 5 = 4"
    using edgeEndLoopD.simps(2)[of "linePoints 6 huge" PInf 4 "Fin 0" 5] step_back_overflow[of 4 6]
    by (simp add: Let_def)
  show ?thesis
    by (simp add: edgeBoundsD_def Let_def length_line s e)
qed

lemma findWindowsD_overflow:
  "findWindowsD (linePoints 6 huge) 5 {0, 1, 4, 5} = [(2, 3, PInf)]"
  by (simp add: findWindowsD_def length_line upt_rec extendLoopD.simps step_overflow Let_def)

lemma jadd_NaN_right: "jadd x NaN = NaN"
  by (cases x) simp_all

lemma rejectedD_overflow: "rejectedD [] [] (1, 4) 6 = {0, 1, 4, 5}"
  by (auto simp: rejectedD_def)

text \<open>
  Claim C3 at the input \<open>[[0,0], [1e160,0], [2e160,0], [3e160,0], [4e160,0], [5e160,0]]\<close>
  with the text length 5. The parser accepts the list, every coordinate being a finite
  number, and the path has no widths. The square of each coordinate difference
  overflows, so the path length is \<open>Infinity\<close> and the curvature at the four interior
  points is NaN (\<open>Infinity / (Infinity * Infinity)\<close>, which the clamp of the cosine
  passes on). No point is a sharp curve, the edge sections are the indices 0 to 1 and
  4 to 5, and the enumeration creates one candidate, the window from index 2 to
  index 3. Its curvature score and its position score are NaN, and so is its overall
  score whatever its width and straightness scores: none of the three lies in
  \<open>[0, 100]\<close>.
\<close>

theorem scores_not_numbers_on_overflow:
  "(case parse parsePolygon (CoordArray overflowCoords) of
      Inl err \<Rightarrow> False
    | Inr path \<Rightarrow> points path = linePoints 6 huge \<and> widths path = None)
   \<and> totalLengthD (linePoints 6 huge) = PInf
   \<and> calculateCurvatureD (linePoints 6 huge) = [Fin 0, NaN, NaN, NaN, NaN, Fin 0]
   \<and> findRuns path SharpCurve (sharpHitsD (calculateCurvatureD (linePoints 6 huge)) 30) = Inr []
   \<and> edgeBoundsD (linePoints 6 huge) (totalLengthD (linePoints 6 huge)) = (1, 4)
   \<and> findWindowsD (linePoints 6 huge) 5 (rejectedD [] [] (1, 4) 6) = [(2, 3, PInf)]
   \<and> calculateCurvatureScoreD (calculateCurvatureD (linePoints 6 huge)) 2 3 = NaN
   \<and> calculatePositionScoreD (linePoints 6 huge) (totalLengthD (linePoints 6 huge)) 2 3 = NaN
   \<and> overallScoreD NaN widthScore NaN straightnessScore = NaN"
proof -
  have c1: "(case parse parsePolygon (CoordArray overflowCoords) of
      Inl err \<Rightarrow> False
    | Inr path \<Rightarrow> points path = linePoints 6 huge \<and> widths path = None)"
    using parse_overflow by (simp add: parse_def)
  have c2: "totalLengthD (linePoints 6 huge) = PInf"
    by (rule totalLengthD_overflow)
  have c3: "calculateCurvatureD (linePoints 6 huge) = [Fin 0, NaN, NaN, NaN, NaN, Fin 0]"
    by (rule curvatureD_overflow)
  have c4: "findRuns path SharpCurve (sharpHitsD (calculateCurvatureD (linePoints 6 huge)) 30)
      = Inr []"
    unfolding c3 by (rule no_sharp_hits)
  have c5: "edgeBoundsD (linePoints 6 huge) (totalLengthD (linePoints 6 huge)) = (1, 4)"
    unfolding c2 by (rule edgeBoundsD_overflow)
  have c6: "findWindowsD (linePoints 6 huge) 5 (rejectedD [] [] (1, 4) 6) = [(2, 3, PInf)]"
    unfolding rejectedD_overflow by (rule findWindowsD_overflow)
  have c7: "calculateCurvatureScoreD (calculateCurvatureD (linePoints 6 huge)) 2 3 = NaN"
    unfolding c3 by (rule curvatureScoreD_overflow)
  have c8: "calculatePositionScoreD (linePoints 6 huge) (totalLengthD (linePoints 6 huge)) 2 3
      = NaN"
    unfolding c2 by (rule positionScoreD_overflow)
  have c9: "overallScoreD NaN widthScore NaN straightnessScore = NaN"
    by (simp add: overallScoreD_def jadd_NaN_right)
  from c1 c2 c3 c4 c5 c6 c7 c8 c9 show ?thesis
    by (intro conjI)
qed

section \<open>Widths below the minimum\<close>

lemma buildPath_lateNegative: "buildPath lateNegativeCoords = Inr lateNegativePath"
  by (simp add: buildPath_def validate_def lateNegativeCoords_def lateNegativePath_def line6
      Let_def totalLength_def boundingBox_def upt_rec)

lemma analyze_lateNegative: "analyzeGeometry lateNegativePath = Inr lateNegativeMetrics"
proof -
  have p: "points lateNegativePath = linePoints 6 10" "path_length lateNegativePath = 50"
    "widths lateNegativePath = Some [Some (- 5), Some 20, Some 20, Some 20]"
    by (simp_all add: lateNegativePath_def)
  have sharp: "findSharpCurves lateNegativePath 30 = Inr []"
    by (simp add: findSharpCurves_def curvature_line6[OF p(1)] findRuns_def Let_def p length_line)
  have narrow: "findNarrowSections lateNegativePath 10
      = Inr [\<lparr>startIdx = 0, endIdx = 0, seg_length = 0, reason = Some NarrowSection\<rparr>]"
    by (simp add: findNarrowSections_def p findRuns_def calcSeg_empty)
  show ?thesis
    using sharp narrow edges_line6[OF p(1,2)] curvature_line6[OF p(1)] p(3)
    by (simp add: analyzeGeometry_def Let_def lateNegativeMetrics_def)
qed

lemma rejected_lateNegative: "rejectedIndices lateNegativeMetrics = {0, 1, 4, 5}"
  by (auto simp: rejectedIndices_def segmentIndices_def lateNegativeMetrics_def)

text \<open>
  Claim C10 at the input \<open>[[0,0], [10,0], [20,0,-5], [30,0,20], [40,0,20], [50,0,20]]\<close>:
  it parses into a width-aware path, but the width \<open>-5\<close> of point 2 is stored at index 0
  of the widths, so the narrow section found is \<open>[0,0]\<close>; point 2 is in no rejected
  region, and the candidate window from index 2 to index 3 contains it. The claim says
  that a point whose width is below the minimum is in a narrow section and in no
  candidate window.
\<close>

theorem negative_width_in_candidate_window:
  "parse parsePolygon (CoordArray lateNegativeCoords) = Inr lateNegativePath
   \<and> analyzeGeometry lateNegativePath = Inr lateNegativeMetrics
   \<and> narrowSections lateNegativeMetrics
       = [\<lparr>startIdx = 0, endIdx = 0, seg_length = 0, reason = Some NarrowSection\<rparr>]
   \<and> (2::int) \<notin> rejectedIndices lateNegativeMetrics
   \<and> findCandidates lateNegativePath 5 lateNegativeMetrics
       = [makeCandidate lateNegativePath lateNegativeMetrics 2 3 10]"
proof -
  have p: "points lateNegativePath = linePoints 6 10"
    by (simp add: lateNegativePath_def)
  have "findCandidates lateNegativePath 5 lateNegativeMetrics
       = [makeCandidate lateNegativePath lateNegativeMetrics 2 3 10]"
    by (rule extend_straight[OF p rejected_lateNegative]) simp
  then show ?thesis
    using buildPath_lateNegative analyze_lateNegative
    by (simp add: parse_def rejected_lateNegative) (simp add: lateNegativeMetrics_def)
qed

section \<open>Width slots when the first entry carries a width\<close>

text \<open>
  The path has one point per entry. When the first entry carries a width, the widths
  have one slot per entry, at the index of its point, and then a point whose width is
  below the minimum is rejected and lies in no candidate window.
\<close>

lemma extractLoop_points:
  "extractLoop coords ps ws h = (ps', ws', h')
   \<Longrightarrow> ps' = ps @ map (\<lambda>c. \<lparr>px = numOf (entryFields c ! 0), py = numOf (entryFields c ! 1)\<rparr>) coords"
proof (induction coords arbitrary: ps ws h)
  case Nil
  then show ?case by simp
next
  case (Cons c rest)
  let ?p = "\<lparr>px = numOf (entryFields c ! 0), py = numOf (entryFields c ! 1)\<rparr>"
  from Cons.prems obtain ws1 h1 where "extractLoop rest (ps @ [?p]) ws1 h1 = (ps', ws', h')"
    by (auto simp: Let_def split: if_splits)
  from Cons.IH[OF this] show ?case by simp
qed

lemma extractLoop_widths_aligned:
  "extractLoop coords ps ws True = (ps', ws', h')
   \<Longrightarrow> ws' = ws @ map widthSlot coords \<and> h'"
proof (induction coords arbitrary: ps ws)
  case Nil
  then show ?case by simp
next
  case (Cons c rest)
  let ?p = "\<lparr>px = numOf (entryFields c ! 0), py = numOf (entryFields c ! 1)\<rparr>"
  from Cons.prems have "extractLoop rest (ps @ [?p]) (ws @ [widthSlot c]) True = (ps', ws', h')"
    by (auto simp: Let_def widthSlot_def split: if_splits)
  from Cons.IH[OF this] show ?case by simp
qed

lemma buildPath_points_length:
  "buildPath coords = Inr path \<Longrightarrow> length (points path) = length coords"
  by (auto simp: buildPath_def split: option.splits prod.splits dest: extractLoop_points)

lemma buildPath_widths_aligned:
  assumes "buildPath coords = Inr path" "length (entryFields (hd coords)) = 3"
  shows "widths path = Some (map widthSlot coords)"
proof -
  from assms(1) have "3 \<le> length coords"
    by (auto simp: buildPath_def validate_def split: option.splits if_splits)
  then obtain c rest where cs: "coords = c # rest" by (cases coords) auto
  obtain ps ws h where ex: "extractLoop coords [] [] False = (ps, ws, h)"
    by (cases "extractLoop coords [] [] False") auto
  then have "extractLoop rest [\<lparr>px = numOf (entryFields c ! 0), py = numOf (entryFields c ! 1)\<rparr>]
               [Some (numOf (entryFields c ! 2))] True = (ps, ws, h)"
    using assms(2) cs by (simp add: Let_def)
  from extractLoop_widths_aligned[OF this] have "ws = map widthSlot coords" "h"
    using assms(2) cs by (simp_all add: widthSlot_def)
  then show ?thesis
    using assms(1) ex by (auto simp: buildPath_def split: option.splits)
qed

lemma narrow_width_rejected_when_aligned:
  assumes built: "buildPath coords = Inr path"
    and first: "length (entryFields (hd coords)) = 3"
    and analysed: "analyzeGeometry path = Inr metrics"
    and i: "i < length coords" "entryFields (coords ! i) = [JNum x, JNum y, JNum w]" "w < 10"
  shows "int i \<in> rejectedIndices metrics"
    and "\<forall>c\<in>set (findCandidates path textLen metrics).
           \<not> (startIdx (segment c) \<le> int i \<and> int i \<le> endIdx (segment c))"
proof -
  have ws: "widths path = Some (map widthSlot coords)"
    by (rule buildPath_widths_aligned[OF built first])
  have "toNumber (map widthSlot coords ! i) < 10"
    using i by (simp add: widthSlot_def)
  then show rej: "int i \<in> rejectedIndices metrics"
    using analyzeGeometry_narrow[OF analysed ws, of i] i(1) by simp
  show "\<forall>c\<in>set (findCandidates path textLen metrics).
           \<not> (startIdx (segment c) \<le> int i \<and> int i \<le> endIdx (segment c))"
  proof
    fix c assume "c \<in> set (findCandidates path textLen metrics)"
    from findCandidates_fits[OF this]
    have "\<forall>j. startIdx (segment c) \<le> j \<and> j \<le> endIdx (segment c) \<longrightarrow> j \<notin> rejectedIndices metrics"
      unfolding fitsWindow_def by blast
    with rej show "\<not> (startIdx (segment c) \<le> int i \<and> int i \<le> endIdx (segment c))"
      by blast
  qed
qed

end
